theory Spec2Isabelle
  imports Main "HOL-Library.AList"
begin

section \<open>JavaScript values\<close>

text \<open>
  The pipeline of \<^verbatim>\<open>src/lib/spotify.js\<close> handles JSON documents of the provider and
  copies parts of them into its result. They are modelled as a datatype of JavaScript
  values. A number is a double whose value is an integer, an infinity or \<^verbatim>\<open>NaN\<close>;
  \<open>Num n\<close> stands for the double nearest to the integer \<open>n\<close>. The numbers the source
  computes with are the seconds of a \<^verbatim>\<open>Retry-After\<close> header as \<^verbatim>\<open>parseInt\<close> reads them
  (an integer-valued double, or \<^verbatim>\<open>NaN\<close>) and the literals 2 and 1000. The two zeros of
  IEEE 754 are one value here: no step of the source tells them apart. A number with a
  fractional part, which a document may hold, has no counterpart among these values.
\<close>

datatype jsnum = Num int | NaN | PosInf | NegInf

text \<open>The number of binary digits of a positive integer.\<close>

function bit_length :: "int \<Rightarrow> nat" where
  "bit_length n = (if n \<le> 0 then 0 else Suc (bit_length (n div 2)))"
  by pat_completeness auto

termination
  by (relation "measure nat") auto

declare bit_length.simps [simp del]

text \<open>
  The double nearest to an integer (round to nearest, ties to even): a double has 53
  significant binary digits, and a magnitude that rounds to \<open>2^1024\<close> or more is an
  infinity.
\<close>

definition round_double :: "int \<Rightarrow> jsnum" where
  "round_double n =
     (let a = \<bar>n\<bar> in
      if a < 2 ^ 53 then Num n
      else
        let e = bit_length a - 53;
            q = a div 2 ^ e;
            r = a mod 2 ^ e;
            half = 2 ^ (e - 1);
            q' = (if half < r \<or> (r = half \<and> odd q) then q + 1 else q);
            m = q' * 2 ^ e
        in if 2 ^ 1024 \<le> m then (if n < 0 then NegInf else PosInf)
           else Num (if n < 0 then - m else m))"

definition to_double :: "jsnum \<Rightarrow> jsnum" where
  "to_double x = (case x of Num n \<Rightarrow> round_double n | _ \<Rightarrow> x)"

datatype jsval =
    JUndefined
  | JNull
  | JBool bool
  | JNumber jsnum
  | JStr string
  | JArr "jsval list"
  | JObj "(string \<times> jsval) list"

text \<open>
  \<^verbatim>\<open>a + b\<close> and \<^verbatim>\<open>a * b\<close> on numbers: the exact sum or product of two doubles, rounded
  to the nearest double. \<^verbatim>\<open>NaN\<close> is absorbing, the sum of the two infinities and the
  product of an infinity and zero are \<^verbatim>\<open>NaN\<close>.
\<close>

fun add_double :: "jsnum \<Rightarrow> jsnum \<Rightarrow> jsnum" where
  "add_double (Num a) (Num b) = round_double (a + b)"
| "add_double NaN _ = NaN"
| "add_double _ NaN = NaN"
| "add_double PosInf NegInf = NaN"
| "add_double NegInf PosInf = NaN"
| "add_double PosInf _ = PosInf"
| "add_double _ PosInf = PosInf"
| "add_double NegInf _ = NegInf"
| "add_double _ NegInf = NegInf"

definition js_add :: "jsnum \<Rightarrow> jsnum \<Rightarrow> jsnum" where
  "js_add x y = add_double (to_double x) (to_double y)"

fun sign_of :: "jsnum \<Rightarrow> int" where
  "sign_of (Num a) = sgn a"
| "sign_of PosInf = 1"
| "sign_of NegInf = - 1"
| "sign_of NaN = 0"

fun mul_double :: "jsnum \<Rightarrow> jsnum \<Rightarrow> jsnum" where
  "mul_double (Num a) (Num b) = round_double (a * b)"
| "mul_double x y =
     (if x = NaN \<or> y = NaN \<or> sign_of x * sign_of y = 0 then NaN
      else if sign_of x * sign_of y < 0 then NegInf
      else PosInf)"

definition js_mul :: "jsnum \<Rightarrow> jsnum \<Rightarrow> jsnum" where
  "js_mul x y = mul_double (to_double x) (to_double y)"

text \<open>
  The errors a run can raise: the \<^verbatim>\<open>Error\<close> thrown by the argument check, a
  \<^verbatim>\<open>TypeError\<close> (a property read or written on \<^verbatim>\<open>undefined\<close> or \<^verbatim>\<open>null\<close>, a call of
  something that is no function, a conversion of an object that has no usable
  \<^verbatim>\<open>toString\<close>), and the error with which an Axios request rejects.
\<close>

record response =
  status :: int
  headers :: "(string \<times> string) list"
  data :: jsval
  request_path :: string

datatype outcome = Responds response | NoResponse

datatype js_error =
    GenreNotString
  | TypeError
  | AxiosError "response option" jsval

text \<open>
  Reading a property \<^verbatim>\<open>v.p\<close>. The names the source reads (\<^verbatim>\<open>playlists\<close>, \<^verbatim>\<open>items\<close>,
  \<^verbatim>\<open>tracks\<close>, \<^verbatim>\<open>href\<close>, \<^verbatim>\<open>track\<close>, \<^verbatim>\<open>id\<close>, \<^verbatim>\<open>name\<close>, \<^verbatim>\<open>popularity\<close>,
  \<^verbatim>\<open>audio_features\<close>, \<^verbatim>\<open>analysis_url\<close>) are no members of a built-in prototype, so a
  value that is no object has none of them.
\<close>

fun get_prop :: "jsval \<Rightarrow> string \<Rightarrow> js_error + jsval" where
  "get_prop JUndefined p = Inl TypeError"
| "get_prop JNull p = Inl TypeError"
| "get_prop (JObj kvs) p = Inr (case map_of kvs p of None \<Rightarrow> JUndefined | Some v \<Rightarrow> v)"
| "get_prop _ p = Inr JUndefined"

text \<open>\<^verbatim>\<open>v[0]\<close>, as in \<^verbatim>\<open>items[0]\<close>.\<close>

fun get_index0 :: "jsval \<Rightarrow> js_error + jsval" where
  "get_index0 JUndefined = Inl TypeError"
| "get_index0 JNull = Inl TypeError"
| "get_index0 (JArr xs) = Inr (case xs of [] \<Rightarrow> JUndefined | x # _ \<Rightarrow> x)"
| "get_index0 (JObj kvs) = Inr (case map_of kvs ''0'' of None \<Rightarrow> JUndefined | Some v \<Rightarrow> v)"
| "get_index0 (JStr s) = Inr (case s of [] \<Rightarrow> JUndefined | c # _ \<Rightarrow> JStr [c])"
| "get_index0 _ = Inr JUndefined"

text \<open>
  \<^verbatim>\<open>v.forEach(f)\<close> runs over the elements of an array; on any other value the call
  raises a \<^verbatim>\<open>TypeError\<close> (there is no property to read, or it is no function).
\<close>

fun as_array :: "jsval \<Rightarrow> js_error + jsval list" where
  "as_array (JArr xs) = Inr xs"
| "as_array _ = Inl TypeError"

definition and_then :: "'e + 'a \<Rightarrow> ('a \<Rightarrow> 'e + 'b) \<Rightarrow> 'e + 'b" where
  "and_then x f = (case x of Inl e \<Rightarrow> Inl e | Inr v \<Rightarrow> f v)"

subsection \<open>Conversion to a string\<close>

fun show_nat :: "nat \<Rightarrow> string" where
  "show_nat n =
     (if n < 10 then [char_of (48 + n)]
      else show_nat (n div 10) @ [char_of (48 + n mod 10)])"

declare show_nat.simps [simp del]

text \<open>The decimal digits of an integer that is not negative.\<close>

function show_digits :: "int \<Rightarrow> string" where
  "show_digits n =
     (if n < 10 then [char_of (48 + n)]
      else show_digits (n div 10) @ [char_of (48 + n mod 10)])"
  by pat_completeness auto

termination
  by (relation "measure nat") auto

declare show_digits.simps [simp del]

definition join_comma :: "string list \<Rightarrow> string" where
  "join_comma ss = (case ss of [] \<Rightarrow> [] | s # rest \<Rightarrow> s @ concat (map (\<lambda>t. CHR '','' # t) rest))"

fun sequence :: "('e + 'a) list \<Rightarrow> 'e + 'a list" where
  "sequence [] = Inr []"
| "sequence (x # xs) = and_then x (\<lambda>v. and_then (sequence xs) (\<lambda>vs. Inr (v # vs)))"

text \<open>
  \<^verbatim>\<open>String(x)\<close> for a number. JavaScript prints the shortest string of digits \<open>s\<close> with an
  exponent \<open>e\<close> such that \<open>s * 10^e\<close> is read back as the same double, the closest one
  where several have that length, the even one where two are as close. \<open>fits x e s\<close>
  says that \<open>s * 10^e\<close> reads back as \<open>x\<close>; at a given exponent only the two multiples of
  \<open>10^e\<close> around \<open>x\<close> need to be tried.
\<close>

definition fits :: "int \<Rightarrow> nat \<Rightarrow> int \<Rightarrow> bool" where
  "fits x e s \<longleftrightarrow> 0 < s \<and> round_double (s * 10 ^ e) = Num x"

definition digits_at :: "int \<Rightarrow> nat \<Rightarrow> int option" where
  "digits_at x e =
     (let lo = x div 10 ^ e;
          hi = lo + 1;
          below = x - lo * 10 ^ e;
          above = hi * 10 ^ e - x
      in if fits x e lo \<and> fits x e hi
         then Some (if below < above \<or> (below = above \<and> even lo) then lo else hi)
         else if fits x e lo then Some lo
         else if fits x e hi then Some hi
         else None)"

text \<open>The largest exponent, from \<open>e\<close> downwards, at which some digits fit.\<close>

fun shortest_digits :: "int \<Rightarrow> nat \<Rightarrow> int \<times> nat" where
  "shortest_digits x 0 = (x, 0)"
| "shortest_digits x (Suc e) =
     (case digits_at x (Suc e) of
        Some s \<Rightarrow> (s, Suc e)
      | None \<Rightarrow> shortest_digits x e)"

text \<open>
  The digits are followed by \<open>e\<close> zeros when that gives at most 21 digits, and are
  printed with an exponent otherwise (\<^verbatim>\<open>1e+21\<close>, \<^verbatim>\<open>1.2e+25\<close>).
\<close>

definition print_digits :: "int \<Rightarrow> string" where
  "print_digits x =
     (case shortest_digits x (length (show_digits x)) of
        (s, e) \<Rightarrow>
          let ds = show_digits s; n = length ds + e
          in if n \<le> 21 then ds @ replicate e CHR ''0''
             else hd ds # (if tl ds = [] then [] else CHR ''.'' # tl ds) @ ''e+'' @ show_nat (n - 1))"

definition number_to_string :: "jsnum \<Rightarrow> string" where
  "number_to_string x =
     (case to_double x of
        NaN \<Rightarrow> ''NaN''
      | PosInf \<Rightarrow> ''Infinity''
      | NegInf \<Rightarrow> ''-Infinity''
      | Num n \<Rightarrow> if n < 0 then CHR ''-'' # print_digits (- n) else print_digits n)"

text \<open>
  \<^verbatim>\<open>String(v)\<close>, which is also the property key of \<^verbatim>\<open>songData[v]\<close> and what
  \<^verbatim>\<open>v + ','\<close> prepends. An object of a JSON document is converted by the
  \<^verbatim>\<open>toString\<close> it inherits, unless it has a property of that name of its own: that one
  is no function, and the conversion raises a \<^verbatim>\<open>TypeError\<close>. An array joins the strings
  of its elements, the empty string for \<^verbatim>\<open>undefined\<close> and \<^verbatim>\<open>null\<close>.
\<close>

fun to_string :: "jsval \<Rightarrow> js_error + string" where
  "to_string JUndefined = Inr ''undefined''"
| "to_string JNull = Inr ''null''"
| "to_string (JBool b) = Inr (if b then ''true'' else ''false'')"
| "to_string (JNumber x) = Inr (number_to_string x)"
| "to_string (JStr s) = Inr s"
| "to_string (JObj kvs) =
     (if ''toString'' \<in> fst ` set kvs then Inl TypeError else Inr ''[object Object]'')"
| "to_string (JArr xs) =
     and_then
       (sequence (map (\<lambda>x. if x = JUndefined \<or> x = JNull then Inr [] else to_string x) xs))
       (\<lambda>ss. Inr (join_comma ss))"

subsection \<open>\<^verbatim>\<open>parseInt\<close> and \<^verbatim>\<open>split\<close>\<close>

definition is_js_space :: "char \<Rightarrow> bool" where
  "is_js_space c \<longleftrightarrow> of_char c \<in> {9, 10, 11, 12, 13, 32, 160 :: nat}"

definition digit_value :: "char \<Rightarrow> nat option" where
  "digit_value c =
     (let n = of_char c :: nat in
      if 48 \<le> n \<and> n \<le> 57 then Some (n - 48)
      else if 97 \<le> n \<and> n \<le> 122 then Some (n - 87)
      else if 65 \<le> n \<and> n \<le> 90 then Some (n - 55)
      else None)"

definition is_digit :: "nat \<Rightarrow> char \<Rightarrow> bool" where
  "is_digit radix c = (case digit_value c of None \<Rightarrow> False | Some d \<Rightarrow> d < radix)"

definition digits_value :: "nat \<Rightarrow> string \<Rightarrow> int" where
  "digits_value radix ds =
     foldl (\<lambda>acc c. acc * int radix + int (the (digit_value c))) 0 ds"

text \<open>
  \<^verbatim>\<open>parseInt(s)\<close> with no radix: leading white space is skipped, a sign is read, a prefix
  \<^verbatim>\<open>0x\<close> or \<^verbatim>\<open>0X\<close> selects base 16, and the longest run of digits is read; the result is
  the double nearest to the signed integer they write, and \<^verbatim>\<open>NaN\<close> with no digit.
\<close>

definition parseInt :: "string \<Rightarrow> jsnum" where
  "parseInt s =
     (let s1 = dropWhile is_js_space s;
          neg = (case s1 of c # _ \<Rightarrow> c = CHR ''-'' | [] \<Rightarrow> False);
          s2 = (case s1 of c # r \<Rightarrow> if c = CHR ''-'' \<or> c = CHR ''+'' then r else s1 | [] \<Rightarrow> s1);
          hex = (case s2 of z # x # _ \<Rightarrow> z = CHR ''0'' \<and> (x = CHR ''x'' \<or> x = CHR ''X'') | _ \<Rightarrow> False);
          radix = (if hex then 16 else 10);
          s3 = (if hex then drop 2 s2 else s2);
          ds = takeWhile (is_digit radix) s3
      in if ds = [] then NaN
         else round_double ((if neg then - 1 else 1) * digits_value radix ds))"

text \<open>\<^verbatim>\<open>s.split('/')\<close>: the pieces between the separators, empty pieces included.\<close>

fun split_on :: "char \<Rightarrow> string \<Rightarrow> string list" where
  "split_on sep [] = [[]]"
| "split_on sep (c # cs) =
     (if c = sep then [] # split_on sep cs
      else (case split_on sep cs of p # ps \<Rightarrow> (c # p) # ps | [] \<Rightarrow> [[c]]))"

text \<open>\<^verbatim>\<open>xs[3]\<close> on an array of strings: \<^verbatim>\<open>undefined\<close> when the array is shorter.\<close>

definition segment3 :: "string list \<Rightarrow> jsval" where
  "segment3 xs = (if 3 < length xs then JStr (xs ! 3) else JUndefined)"

section \<open>The result set, the upstream and the trace\<close>

text \<open>
  \<^verbatim>\<open>songData\<close> is an object keyed by track id; each entry is the object literal
  \<^verbatim>\<open>{name, popularity}\<close> of the listing, to which \<^verbatim>\<open>features\<close> and \<^verbatim>\<open>analysis\<close> are
  added later. A field that is \<open>None\<close> is a property the record does not have of its own.
\<close>

record track_record =
  name :: jsval
  popularity :: jsval
  features :: "jsval option"
  analysis :: "jsval option"

type_synonym song_data = "(string \<times> track_record) list"

text \<open>
  \<^verbatim>\<open>songData\<close> is created by \<^verbatim>\<open>{}\<close>, so that \<^verbatim>\<open>songData[k]\<close> also finds what the object
  inherits. The store holds the own properties of \<^verbatim>\<open>songData\<close> in the order of their
  creation, and the part of the prototype chain that the source can change:

  \<^item> the prototype of \<^verbatim>\<open>songData\<close>, when a record has taken the place of
    \<^verbatim>\<open>Object.prototype\<close> (\<open>proto_record\<close>; the record itself inherits from
    \<^verbatim>\<open>Object.prototype\<close>);
  \<^item> the properties \<^verbatim>\<open>features\<close> and \<^verbatim>\<open>analysis\<close> of \<^verbatim>\<open>Object.prototype\<close>, when the
    source has created them.

  \<^verbatim>\<open>Object.prototype\<close> is otherwise the one of a fresh realm.
\<close>

datatype field = Features | Analysis

record store =
  own :: song_data
  proto_record :: "track_record option"
  object_features :: "jsval option"
  object_analysis :: "jsval option"

definition empty_store :: store where
  "empty_store = \<lparr>own = [], proto_record = None, object_features = None, object_analysis = None\<rparr>"

text \<open>
  What is observable of a run besides its result: the requests handed to Axios, each with
  the answer the upstream gives to it, the two steps of \<^verbatim>\<open>sleep\<close>, and the two
  \<^verbatim>\<open>console.error\<close> lines.
\<close>

datatype event =
    Request jsval outcome
  | SleepResolved
  | SetTimeout jsval jsnum
  | LogResidual nat
  | LogFatal js_error

fun answers :: "event list \<Rightarrow> outcome list" where
  "answers [] = []"
| "answers (Request url out # es) = out # answers es"
| "answers (_ # es) = answers es"

record state =
  songData :: store
  trace :: "event list"

definition init_state :: state where
  "init_state = \<lparr>songData = empty_store, trace = []\<rparr>"

text \<open>
  The upstream is any function from the number of requests made before and the URL of
  the request to an answer: a response of any status, or none at all (a network-level
  failure).
\<close>

type_synonym world = "nat \<Rightarrow> jsval \<Rightarrow> outcome"

datatype 'a promise = Fulfilled 'a | Rejected js_error

text \<open>
  Axios fulfils with the response when its status is 2xx (the default
  \<^verbatim>\<open>validateStatus\<close>), and rejects otherwise with an error that carries the response, if
  there is one, and the request's configuration.
\<close>

definition settle :: "outcome \<Rightarrow> jsval \<Rightarrow> response promise" where
  "settle out url =
     (case out of
        Responds r \<Rightarrow>
          if 200 \<le> status r \<and> status r < 300 then Fulfilled r
          else Rejected (AxiosError (Some r) url)
      | NoResponse \<Rightarrow> Rejected (AxiosError None url))"

definition Axios :: "world \<Rightarrow> jsval \<Rightarrow> state \<Rightarrow> response promise \<times> state" where
  "Axios w url st =
     (let out = w (length (answers (trace st))) url
      in (settle out url, st\<lparr>trace := trace st @ [Request url out]\<rparr>))"

text \<open>\<^verbatim>\<open>p.then(cb)\<close>: the callback runs on the value of a fulfilled promise only.\<close>

definition then_do ::
  "'a promise \<times> state \<Rightarrow> ('a \<Rightarrow> state \<Rightarrow> 'b promise \<times> state) \<Rightarrow> 'b promise \<times> state" where
  "then_do p cb = (case p of (Fulfilled v, st) \<Rightarrow> cb v st | (Rejected e, st) \<Rightarrow> (Rejected e, st))"

text \<open>
  \<^verbatim>\<open>Promise.all\<close>: the values in the order of the promises, or a rejection. Where several
  promises reject, the first to settle wins; the list order stands for it.
\<close>

fun promise_all :: "'a promise list \<Rightarrow> 'a list promise" where
  "promise_all [] = Fulfilled []"
| "promise_all (Rejected e # ps) = Rejected e"
| "promise_all (Fulfilled v # ps) =
     (case promise_all ps of Rejected e \<Rightarrow> Rejected e | Fulfilled vs \<Rightarrow> Fulfilled (v # vs))"

text \<open>
  \<^verbatim>\<open>xs.forEach(body)\<close> on a body that updates the variables it closes over: the
  variables after the last element, or the error a body raised and the variables as they
  were when that body started.
\<close>

fun for_each :: "('a \<Rightarrow> 's \<Rightarrow> js_error + 's) \<Rightarrow> 'a list \<Rightarrow> 's \<Rightarrow> js_error option \<times> 's" where
  "for_each body [] s = (None, s)"
| "for_each body (x # xs) s =
     (case body x s of Inl e \<Rightarrow> (Some e, s) | Inr s' \<Rightarrow> for_each body xs s')"

subsection \<open>Property access on \<^verbatim>\<open>songData\<close>\<close>

text \<open>
  The members of \<^verbatim>\<open>Object.prototype\<close>: the accessor \<^verbatim>\<open>__proto__\<close> and eleven functions.
\<close>

definition builtin_keys :: "string list" where
  "builtin_keys =
     [''constructor'', ''__defineGetter__'', ''__defineSetter__'', ''hasOwnProperty'',
      ''__lookupGetter__'', ''__lookupSetter__'', ''isPrototypeOf'', ''propertyIsEnumerable'',
      ''toString'', ''valueOf'', ''toLocaleString'']"

definition key_of :: "jsval \<Rightarrow> js_error + string" where
  "key_of v = to_string v"

text \<open>
  \<^verbatim>\<open>songData[k] = rec\<close> creates or overwrites an own property, except for the key
  \<^verbatim>\<open>__proto__\<close>: that assignment calls the setter of \<^verbatim>\<open>Object.prototype\<close>, which makes
  the record the prototype of \<^verbatim>\<open>songData\<close> (every other inherited property is a
  writable data property, which an assignment shadows).
\<close>

definition put :: "store \<Rightarrow> string \<Rightarrow> track_record \<Rightarrow> store" where
  "put s k rec =
     (if k = ''__proto__'' then s\<lparr>proto_record := Some rec\<rparr>
      else s\<lparr>own := AList.update k rec (own s)\<rparr>)"

text \<open>
  What \<^verbatim>\<open>songData[k]\<close> evaluates to: a record that is an own property; for
  \<^verbatim>\<open>__proto__\<close> the prototype of \<^verbatim>\<open>songData\<close>, a record or \<^verbatim>\<open>Object.prototype\<close>; a
  property of the record that is the prototype; a function of \<^verbatim>\<open>Object.prototype\<close>; a
  property the source has created on \<^verbatim>\<open>Object.prototype\<close>; or \<^verbatim>\<open>undefined\<close>.
\<close>

datatype target =
    OwnRecord track_record
  | ProtoRecord track_record
  | ObjectPrototype
  | BuiltIn
  | Inherited jsval
  | NoProperty

definition record_prop :: "track_record \<Rightarrow> string \<Rightarrow> jsval option" where
  "record_prop rec k =
     (if k = ''name'' then Some (name rec)
      else if k = ''popularity'' then Some (popularity rec)
      else if k = ''features'' then features rec
      else if k = ''analysis'' then analysis rec
      else None)"

definition object_prop :: "store \<Rightarrow> string \<Rightarrow> jsval option" where
  "object_prop s k =
     (if k = ''features'' then object_features s
      else if k = ''analysis'' then object_analysis s
      else None)"

definition lookup :: "store \<Rightarrow> string \<Rightarrow> target" where
  "lookup s k =
     (case map_of (own s) k of
        Some rec \<Rightarrow> OwnRecord rec
      | None \<Rightarrow>
          if k = ''__proto__''
          then (case proto_record s of Some p \<Rightarrow> ProtoRecord p | None \<Rightarrow> ObjectPrototype)
          else
            (case Option.bind (proto_record s) (\<lambda>p. record_prop p k) of
               Some v \<Rightarrow> Inherited v
             | None \<Rightarrow>
                 if k \<in> set builtin_keys then BuiltIn
                 else (case object_prop s k of Some v \<Rightarrow> Inherited v | None \<Rightarrow> NoProperty)))"

definition set_field :: "field \<Rightarrow> jsval \<Rightarrow> track_record \<Rightarrow> track_record" where
  "set_field fld v rec =
     (case fld of Features \<Rightarrow> rec\<lparr>features := Some v\<rparr> | Analysis \<Rightarrow> rec\<lparr>analysis := Some v\<rparr>)"

text \<open>
  \<^verbatim>\<open>songData[k].features = v\<close> and \<^verbatim>\<open>songData[k].analysis = v\<close>, in the strict mode of a
  class body. On a record the field is set. On \<^verbatim>\<open>Object.prototype\<close> the property is
  created there. On a function of \<^verbatim>\<open>Object.prototype\<close>, and on an object or array of a
  document that \<^verbatim>\<open>songData\<close> inherits as a property value, the property is created on
  that value, which is no part of \<^verbatim>\<open>songData\<close>: the store does not change. On
  \<^verbatim>\<open>undefined\<close>, \<^verbatim>\<open>null\<close> and any other primitive value the assignment raises a
  \<^verbatim>\<open>TypeError\<close>.
\<close>

definition assign :: "store \<Rightarrow> string \<Rightarrow> field \<Rightarrow> jsval \<Rightarrow> js_error + store" where
  "assign s k fld v =
     (case lookup s k of
        OwnRecord rec \<Rightarrow> Inr (s\<lparr>own := AList.update k (set_field fld v rec) (own s)\<rparr>)
      | ProtoRecord p \<Rightarrow> Inr (s\<lparr>proto_record := Some (set_field fld v p)\<rparr>)
      | ObjectPrototype \<Rightarrow>
          Inr (case fld of
                 Features \<Rightarrow> s\<lparr>object_features := Some v\<rparr>
               | Analysis \<Rightarrow> s\<lparr>object_analysis := Some v\<rparr>)
      | BuiltIn \<Rightarrow> Inr s
      | Inherited x \<Rightarrow> (case x of JObj _ \<Rightarrow> Inr s | JArr _ \<Rightarrow> Inr s | _ \<Rightarrow> Inl TypeError)
      | NoProperty \<Rightarrow> Inl TypeError)"

section \<open>\<^verbatim>\<open>sleep\<close>\<close>

text \<open>
  \<^verbatim>\<open>const sleep = (delay) => new Promise( resolve => setTimeout(resolve(), delay) );\<close>

  The arguments of a call are evaluated before the call. So the executor first runs
  \<^verbatim>\<open>resolve()\<close>, which fulfils the promise, and then hands the value of that call,
  \<^verbatim>\<open>undefined\<close>, to \<^verbatim>\<open>setTimeout\<close> together with the delay. Whatever \<^verbatim>\<open>setTimeout\<close>
  does with it, the promise is settled already.
\<close>

definition sleep :: "jsnum \<Rightarrow> event list" where
  "sleep delay = [SleepResolved, SetTimeout JUndefined delay]"

section \<open>\<^verbatim>\<open>getTop100AudioData\<close>\<close>

subsection \<open>The playlist of the genre (lines 88--99)\<close>

definition playlist_url :: "string \<Rightarrow> string" where
  "playlist_url genre = ''https://api.spotify.com/v1/browse/categories/'' @ genre @ ''/playlists''"

text \<open>\<^verbatim>\<open>response.data.playlists.items[0].tracks.href\<close>\<close>

definition tracklist_href :: "response \<Rightarrow> js_error + jsval" where
  "tracklist_href response =
     and_then (get_prop (data response) ''playlists'') (\<lambda>playlists.
     and_then (get_prop playlists ''items'') (\<lambda>items.
     and_then (get_index0 items) (\<lambda>first.
     and_then (get_prop first ''tracks'') (\<lambda>tracks.
     get_prop tracks ''href''))))"

definition on_playlists :: "world \<Rightarrow> response \<Rightarrow> state \<Rightarrow> response promise \<times> state" where
  "on_playlists w response st =
     (case tracklist_href response of
        Inl e \<Rightarrow> (Rejected e, st)
      | Inr href \<Rightarrow> Axios w href st)"

subsection \<open>The track listing (lines 100--115)\<close>

definition feature_url_prefix :: string where
  "feature_url_prefix = ''https://api.spotify.com/v1/audio-features/?ids=''"

text \<open>The body of \<^verbatim>\<open>response.data.items.forEach\<close>, on \<^verbatim>\<open>featureUrl\<close> and \<^verbatim>\<open>songData\<close>.\<close>

definition add_track :: "jsval \<Rightarrow> string \<times> store \<Rightarrow> js_error + string \<times> store" where
  "add_track trackItem s =
     (case s of (featureUrl, sd) \<Rightarrow>
       and_then (get_prop trackItem ''track'') (\<lambda>track.
       and_then (get_prop track ''id'') (\<lambda>tid.
       and_then (key_of tid) (\<lambda>k.
       and_then (get_prop track ''name'') (\<lambda>nm.
       and_then (get_prop track ''popularity'') (\<lambda>pop.
       Inr (featureUrl @ k @ '','',
            put sd k \<lparr>name = nm, popularity = pop, features = None, analysis = None\<rparr>)))))))"

definition on_tracklist :: "world \<Rightarrow> response \<Rightarrow> state \<Rightarrow> response promise \<times> state" where
  "on_tracklist w response st =
     (case and_then (get_prop (data response) ''items'') as_array of
        Inl e \<Rightarrow> (Rejected e, st)
      | Inr items \<Rightarrow>
          (case for_each add_track items (feature_url_prefix, songData st) of
             (Some e, _) \<Rightarrow> (Rejected e, st)
           | (None, (featureUrl, sd)) \<Rightarrow>
               Axios w (JStr (butlast featureUrl)) (st\<lparr>songData := sd\<rparr>)))"

subsection \<open>Features and the analysis requests (lines 116--134)\<close>

text \<open>
  What a per-track promise settles to: the response of a fulfilled request, the object
  \<^verbatim>\<open>{status, url, timeout}\<close> built by the \<^verbatim>\<open>catch\<close> of line 125, or the \<^verbatim>\<open>{}\<close> of the
  \<^verbatim>\<open>catch\<close> of line 165.
\<close>

record failure =
  err_status :: int
  err_url :: jsval
  err_timeout :: jsnum

datatype settled = Resp response | Fail failure | Empty

text \<open>\<^verbatim>\<open>song.status\<close>, \<^verbatim>\<open>error.url\<close> and \<^verbatim>\<open>errors[i].timeout\<close>; \<open>None\<close> is \<^verbatim>\<open>undefined\<close>.\<close>

fun status_of :: "settled \<Rightarrow> int option" where
  "status_of (Resp r) = Some (status r)"
| "status_of (Fail f) = Some (err_status f)"
| "status_of Empty = None"

fun url_of :: "settled \<Rightarrow> jsval" where
  "url_of (Fail f) = err_url f"
| "url_of _ = JUndefined"

fun timeout_of :: "settled \<Rightarrow> jsnum option" where
  "timeout_of (Fail f) = Some (err_timeout f)"
| "timeout_of _ = None"

text \<open>
  \<^verbatim>\<open>err.response.headers['retry-after'] ? parseInt(err.response.headers['retry-after']) : NaN\<close>
\<close>

definition retry_after :: "response \<Rightarrow> jsnum" where
  "retry_after r =
     (case map_of (headers r) ''retry-after'' of
        None \<Rightarrow> NaN
      | Some h \<Rightarrow> if h = [] then NaN else parseInt h)"

text \<open>
  The \<^verbatim>\<open>catch\<close> of line 125. The first property of the literal reads
  \<^verbatim>\<open>err.response.status\<close>; an error without a response has \<^verbatim>\<open>err.response\<close> undefined.
\<close>

definition on_analysis_error :: "js_error \<Rightarrow> js_error + failure" where
  "on_analysis_error err =
     (case err of
        AxiosError (Some r) url \<Rightarrow>
          Inr \<lparr>err_status = status r, err_url = url, err_timeout = retry_after r\<rparr>
      | _ \<Rightarrow> Inl TypeError)"

definition catch_analysis :: "response promise \<Rightarrow> settled promise" where
  "catch_analysis p =
     (case p of
        Fulfilled r \<Rightarrow> Fulfilled (Resp r)
      | Rejected err \<Rightarrow>
          (case on_analysis_error err of Inl e \<Rightarrow> Rejected e | Inr f \<Rightarrow> Fulfilled (Fail f)))"

text \<open>\<^verbatim>\<open>songData[song.id].features = song\<close>\<close>

definition attach_features :: "jsval \<Rightarrow> store \<Rightarrow> js_error + store" where
  "attach_features song sd =
     and_then (get_prop song ''id'') (\<lambda>sid.
     and_then (key_of sid) (\<lambda>k.
     assign sd k Features song))"

text \<open>The body of \<^verbatim>\<open>response.data.audio_features.forEach\<close>.\<close>

definition request_analysis ::
  "world \<Rightarrow> jsval \<Rightarrow> state \<times> settled promise list \<Rightarrow> js_error + state \<times> settled promise list" where
  "request_analysis w song s =
     (case s of (st, promises) \<Rightarrow>
       and_then (attach_features song (songData st)) (\<lambda>sd.
       and_then (get_prop song ''analysis_url'') (\<lambda>url.
       (case Axios w url (st\<lparr>songData := sd\<rparr>) of
          (p, st') \<Rightarrow> Inr (st', promises @ [catch_analysis p])))))"

definition on_features :: "world \<Rightarrow> response \<Rightarrow> state \<Rightarrow> settled list promise \<times> state" where
  "on_features w response st =
     (case and_then (get_prop (data response) ''audio_features'') as_array of
        Inl e \<Rightarrow> (Rejected e, st)
      | Inr songs \<Rightarrow>
          (case for_each (request_analysis w) songs (st, []) of
             (Some e, (st', _)) \<Rightarrow> (Rejected e, st')
           | (None, (st', promises)) \<Rightarrow> (promise_all promises, st')))"

subsection \<open>Sorting the answers, and the retry (lines 135--183)\<close>

text \<open>\<^verbatim>\<open>song.request.path.split('/')[3]\<close>\<close>

definition path_id :: "response \<Rightarrow> jsval" where
  "path_id r = segment3 (split_on CHR ''/'' (request_path r))"

text \<open>
  \<^verbatim>\<open>const id = song.request.path.split('/')[3]; songData[id].analysis = song.data;\<close>
  Only a response has a \<^verbatim>\<open>request\<close>.
\<close>

definition attach_analysis :: "settled \<Rightarrow> store \<Rightarrow> js_error + store" where
  "attach_analysis song sd =
     (case song of
        Resp r \<Rightarrow>
          and_then (key_of (path_id r)) (\<lambda>k.
          assign sd k Analysis (data r))
      | _ \<Rightarrow> Inl TypeError)"

text \<open>The body of \<^verbatim>\<open>songs.forEach\<close> (lines 137--144), on \<^verbatim>\<open>songData\<close> and \<^verbatim>\<open>errors\<close>.\<close>

definition sort_answer :: "settled \<Rightarrow> store \<times> settled list \<Rightarrow> js_error + store \<times> settled list" where
  "sort_answer song s =
     (case s of (sd, errors) \<Rightarrow>
       if status_of song \<noteq> Some 200 then Inr (sd, errors @ [song])
       else and_then (attach_analysis song sd) (\<lambda>sd'. Inr (sd', errors)))"

text \<open>The loop of lines 147--155: \<^verbatim>\<open>timeout\<close> starts at 0, the first 429 sets it.\<close>

fun backoff :: "settled list \<Rightarrow> jsnum" where
  "backoff [] = Num 0"
| "backoff (e # es) =
     (if status_of e = Some 429
      then js_mul (js_add (case timeout_of e of None \<Rightarrow> NaN | Some t \<Rightarrow> t) (Num 2)) (Num 1000)
      else backoff es)"

text \<open>The body of \<^verbatim>\<open>errors.forEach\<close> (lines 159--166); its \<^verbatim>\<open>catch\<close> answers \<^verbatim>\<open>{}\<close>.\<close>

definition catch_retry :: "response promise \<Rightarrow> settled promise" where
  "catch_retry p = (case p of Fulfilled r \<Rightarrow> Fulfilled (Resp r) | Rejected err \<Rightarrow> Fulfilled Empty)"

definition request_retry ::
  "world \<Rightarrow> settled \<Rightarrow> state \<times> settled promise list \<Rightarrow> js_error + state \<times> settled promise list" where
  "request_retry w error s =
     (case s of (st, promises) \<Rightarrow>
       (case Axios w (url_of error) st of
          (p, st') \<Rightarrow> Inr (st', promises @ [catch_retry p])))"

text \<open>
  The body of \<^verbatim>\<open>retries.forEach\<close> (lines 170--176), on \<^verbatim>\<open>songData\<close> and \<^verbatim>\<open>i\<close>.
  \<^verbatim>\<open>(song.status || '') === 200\<close> holds exactly when the status is 200.
\<close>

definition merge_retry :: "settled \<Rightarrow> store \<times> nat \<Rightarrow> js_error + store \<times> nat" where
  "merge_retry song s =
     (case s of (sd, i) \<Rightarrow>
       if status_of song = Some 200
       then and_then (attach_analysis song sd) (\<lambda>sd'. Inr (sd', i))
       else Inr (sd, i + 1))"

text \<open>
  How the promise returned by \<^verbatim>\<open>getTop100AudioData\<close> ends, or the error the call itself
  throws. The promise resolves with \<^verbatim>\<open>songData\<close>, which is reported by its own
  properties, the records (what \<^verbatim>\<open>JSON.stringify\<close> writes of it).
\<close>

datatype result = Throws js_error | Rejects js_error | Resolves song_data

text \<open>
  The retry pass: \<^verbatim>\<open>sleep(timeout).then(...)\<close>, whose promise is handed to \<^verbatim>\<open>resolve\<close>, so
  that the outer promise ends as this one does.
\<close>

definition retry_pass :: "world \<Rightarrow> settled list \<Rightarrow> state \<Rightarrow> result \<times> state" where
  "retry_pass w errors st =
     (case for_each (request_retry w) errors (st\<lparr>trace := trace st @ sleep (backoff errors)\<rparr>, []) of
        (Some e, (st', _)) \<Rightarrow> (Rejects e, st')
      | (None, (st', promises)) \<Rightarrow>
          (case promise_all promises of
             Rejected e \<Rightarrow> (Rejects e, st')
           | Fulfilled retries \<Rightarrow>
               (case for_each merge_retry retries (songData st', 0) of
                  (Some e, _) \<Rightarrow> (Rejects e, st')
                | (None, (sd, i)) \<Rightarrow>
                    (Resolves (own sd), st'\<lparr>songData := sd, trace := trace st' @ [LogResidual i]\<rparr>))))"

text \<open>
  The callback of line 135. A \<open>Rejected\<close> result is an error raised in the callback
  itself; \<open>Fulfilled res\<close> says that it called \<^verbatim>\<open>resolve\<close>, and how the outer promise ends.
\<close>

definition on_analyses :: "world \<Rightarrow> settled list \<Rightarrow> state \<Rightarrow> result promise \<times> state" where
  "on_analyses w songs st =
     (case for_each sort_answer songs (songData st, []) of
        (Some e, _) \<Rightarrow> (Rejected e, st)
      | (None, (sd, errors)) \<Rightarrow>
          if length errors > 0
          then (case retry_pass w errors (st\<lparr>songData := sd\<rparr>) of (res, st') \<Rightarrow> (Fulfilled res, st'))
          else (Fulfilled (Resolves (own sd)), st\<lparr>songData := sd\<rparr>))"

subsection \<open>The chain of promises\<close>

definition stage_playlists :: "world \<Rightarrow> string \<Rightarrow> response promise \<times> state" where
  "stage_playlists w genre = Axios w (JStr (playlist_url genre)) init_state"

definition stage_tracklist :: "world \<Rightarrow> string \<Rightarrow> response promise \<times> state" where
  "stage_tracklist w genre = then_do (stage_playlists w genre) (on_playlists w)"

definition stage_features :: "world \<Rightarrow> string \<Rightarrow> response promise \<times> state" where
  "stage_features w genre = then_do (stage_tracklist w genre) (on_tracklist w)"

definition stage_analyses :: "world \<Rightarrow> string \<Rightarrow> settled list promise \<times> state" where
  "stage_analyses w genre = then_do (stage_features w genre) (on_features w)"

text \<open>
  The \<^verbatim>\<open>catch\<close> of line 184 logs and rejects with any error raised along the chain.
\<close>

definition finish :: "result promise \<times> state \<Rightarrow> result \<times> event list" where
  "finish p =
     (case p of
        (Fulfilled res, st) \<Rightarrow> (res, trace st)
      | (Rejected e, st) \<Rightarrow> (Rejects e, trace st @ [LogFatal e]))"

definition getTop100AudioData :: "world \<Rightarrow> jsval \<Rightarrow> result \<times> event list" where
  "getTop100AudioData w genre =
     (case genre of
        JStr g \<Rightarrow> finish (then_do (stage_analyses w g) (on_analyses w))
      | _ \<Rightarrow> (Throws GenreNotString, []))"

section \<open>Quantities read off a run\<close>

text \<open>The answers to the requests \<open>n\<close>, \<open>n + 1\<close>, ... when they ask for \<open>urls\<close>.\<close>

fun issue :: "world \<Rightarrow> nat \<Rightarrow> jsval list \<Rightarrow> outcome list" where
  "issue w n [] = []"
| "issue w n (url # urls) = w n url # issue w (Suc n) urls"

text \<open>
  The answers of status 200 among a list of answers, and the number of the others (a
  missing response counts among them).
\<close>

fun answered_200 :: "outcome \<Rightarrow> bool" where
  "answered_200 (Responds r) = (status r = 200)"
| "answered_200 NoResponse = False"

definition count_not_200 :: "outcome list \<Rightarrow> nat" where
  "count_not_200 outs = length (filter (\<lambda>out. \<not> answered_200 out) outs)"

fun responses_200 :: "outcome list \<Rightarrow> response list" where
  "responses_200 [] = []"
| "responses_200 (Responds r # outs) =
     (if status r = 200 then r # responses_200 outs else responses_200 outs)"
| "responses_200 (NoResponse # outs) = responses_200 outs"

text \<open>
  The first three requests of a run are those for the playlists, the track listing and
  the features; every later one asks for an analysis, in the first pass or in the retry.
\<close>

definition feature_objects :: "event list \<Rightarrow> jsval list" where
  "feature_objects tr =
     (case drop 2 (answers tr) of
        Responds r # _ \<Rightarrow>
          (case and_then (get_prop (data r) ''audio_features'') as_array of
             Inr songs \<Rightarrow> songs
           | Inl _ \<Rightarrow> [])
      | _ \<Rightarrow> [])"

definition analyses_200 :: "event list \<Rightarrow> response list" where
  "analyses_200 tr = responses_200 (drop 3 (answers tr))"

text \<open>
  The key under which \<^verbatim>\<open>songData[song.id]\<close> looks a feature object up, and the key that
  \<^verbatim>\<open>songData[id]\<close> uses for the id read off the request path of a response.
\<close>

definition feature_key :: "jsval \<Rightarrow> js_error + string" where
  "feature_key song = and_then (get_prop song ''id'') key_of"

definition path_key :: "response \<Rightarrow> js_error + string" where
  "path_key r = key_of (path_id r)"

definition last_opt :: "'a list \<Rightarrow> 'a option" where
  "last_opt xs = (if xs = [] then None else Some (last xs))"

text \<open>The trace of \<open>st'\<close> continues that of \<open>st\<close>.\<close>

definition extends :: "state \<Rightarrow> state \<Rightarrow> bool" where
  "extends st st' \<longleftrightarrow> (\<exists>tr. trace st' = trace st @ tr)"

text \<open>The events that are requests.\<close>

fun is_request :: "event \<Rightarrow> bool" where
  "is_request (Request url out) = True"
| "is_request _ = False"

text \<open>
  A record as the listing creates it from \<open>trackItem\<close>: the key is the string of the
  item's track id, name and popularity are copied, and nothing else is set.
\<close>

definition listed_as :: "jsval \<Rightarrow> string \<Rightarrow> track_record \<Rightarrow> bool" where
  "listed_as trackItem k rec \<longleftrightarrow>
     (case get_prop trackItem ''track'' of
        Inl _ \<Rightarrow> False
      | Inr track \<Rightarrow>
          and_then (get_prop track ''id'') key_of = Inr k
          \<and> get_prop track ''name'' = Inr (name rec)
          \<and> get_prop track ''popularity'' = Inr (popularity rec)
          \<and> features rec = None \<and> analysis rec = None)"

text \<open>
  The last feature object, and the last response of status 200, that a record receives
  decide its \<^verbatim>\<open>features\<close> and its \<^verbatim>\<open>analysis\<close>.
\<close>

definition with_features :: "jsval option \<Rightarrow> track_record \<Rightarrow> track_record" where
  "with_features f rec = (case f of None \<Rightarrow> rec | Some song \<Rightarrow> rec\<lparr>features := Some song\<rparr>)"

definition with_analysis :: "response option \<Rightarrow> track_record \<Rightarrow> track_record" where
  "with_analysis r rec = (case r of None \<Rightarrow> rec | Some resp \<Rightarrow> rec\<lparr>analysis := Some (data resp)\<rparr>)"

text \<open>The URL of the analysis request for a feature object: \<^verbatim>\<open>song.analysis_url\<close>.\<close>

definition analysis_url_of :: "jsval \<Rightarrow> jsval" where
  "analysis_url_of song = (case get_prop song ''analysis_url'' of Inr url \<Rightarrow> url | Inl _ \<Rightarrow> JUndefined)"

text \<open>The responses of status 200 among what the per-track promises settled to.\<close>

fun resp_200 :: "settled list \<Rightarrow> response list" where
  "resp_200 [] = []"
| "resp_200 (Resp r # ss) = (if status r = 200 then r # resp_200 ss else resp_200 ss)"
| "resp_200 (_ # ss) = resp_200 ss"

text \<open>
  The names under which \<^verbatim>\<open>songData[k]\<close> can find something that is no record of its
  own: the members of \<^verbatim>\<open>Object.prototype\<close>, and the properties of a record, which
  \<^verbatim>\<open>songData\<close> inherits when a record is its prototype.
\<close>

definition inherited_keys :: "string list" where
  "inherited_keys =
     ''__proto__'' # builtin_keys @ [''name'', ''popularity'', ''features'', ''analysis'']"

text \<open>
  The feature objects whose analysis request of the first pass did not settle to a status
  of 200, in the order of the requests: \<^verbatim>\<open>errors\<close> holds what these requests settled to,
  and the retry pass issues one request for each.
\<close>

definition failed_tracks :: "jsval list \<Rightarrow> settled list \<Rightarrow> jsval list" where
  "failed_tracks feats songs =
     map fst (filter (\<lambda>(song, s). status_of s \<noteq> Some 200) (zip feats songs))"

section \<open>Example upstreams\<close>

definition ok_resp :: "jsval \<Rightarrow> string \<Rightarrow> response" where
  "ok_resp d p = \<lparr>status = 200, headers = [], data = d, request_path = p\<rparr>"

definition error_resp :: "int \<Rightarrow> (string \<times> string) list \<Rightarrow> response" where
  "error_resp s h = \<lparr>status = s, headers = h, data = JUndefined, request_path = []\<rparr>"

definition ok_response :: "jsval \<Rightarrow> string \<Rightarrow> outcome" where
  "ok_response d p = Responds (ok_resp d p)"

definition error_response :: "int \<Rightarrow> (string \<times> string) list \<Rightarrow> outcome" where
  "error_response s h = Responds (error_resp s h)"

definition track_item :: "jsval \<Rightarrow> jsval \<Rightarrow> jsval \<Rightarrow> jsval" where
  "track_item i n p = JObj [(''track'', JObj [(''id'', i), (''name'', n), (''popularity'', p)])]"

definition analysis_url :: "string \<Rightarrow> jsval" where
  "analysis_url i = JStr (''https://api.spotify.com/v1/audio-analysis/'' @ i)"

definition feature_object :: "string \<Rightarrow> jsval" where
  "feature_object i = JObj [(''id'', JStr i), (''analysis_url'', analysis_url i)]"

definition analysis_resp :: "string \<Rightarrow> response" where
  "analysis_resp i = ok_resp (JStr (''analysis of '' @ i)) (''/v1/audio-analysis/'' @ i)"

definition playlists_doc :: "jsval list \<Rightarrow> jsval" where
  "playlists_doc items = JObj [(''playlists'', JObj [(''items'', JArr items)])]"

definition one_playlist :: jsval where
  "one_playlist =
     playlists_doc
       [JObj [(''tracks'', JObj [(''href'', JStr ''https://api.spotify.com/v1/playlists/p1/tracks'')])]]"

definition listing_doc :: "jsval list \<Rightarrow> jsval" where
  "listing_doc items = JObj [(''items'', JArr items)]"

definition features_doc :: "jsval list \<Rightarrow> jsval" where
  "features_doc songs = JObj [(''audio_features'', JArr songs)]"

definition three_tracks :: "jsval list" where
  "three_tracks =
     [track_item (JStr ''a1'') (JStr ''A'') (JNumber (Num 50)),
      track_item (JStr ''b2'') (JStr ''B'') (JNumber (Num 60)),
      track_item (JStr ''c3'') (JStr ''C'') (JNumber (Num 70))]"

text \<open>The store that holds the given records and has left the prototype chain as it was.\<close>

definition records_only :: "song_data \<Rightarrow> store" where
  "records_only sd =
     \<lparr>own = sd, proto_record = None, object_features = None, object_analysis = None\<rparr>"

text \<open>One track, every request answered with 200.\<close>

definition upstream_ok :: world where
  "upstream_ok n url =
     (if n = 0 then ok_response one_playlist ''/v1/browse/categories/jazz/playlists''
      else if n = 1 then
        ok_response (listing_doc [track_item (JStr ''a1'') (JStr ''A'') (JNumber (Num 50))])
          ''/v1/playlists/p1/tracks''
      else if n = 2 then ok_response (features_doc [feature_object ''a1'']) ''/v1/audio-features/''
      else Responds (analysis_resp ''a1''))"

definition ok_result :: song_data where
  "ok_result =
     [(''a1'', \<lparr>name = JStr ''A'', popularity = JNumber (Num 50),
               features = Some (feature_object ''a1''),
               analysis = Some (JStr ''analysis of a1'')\<rparr>)]"

text \<open>
  Three tracks, the features in another order than the listing. Of the analysis requests
  the first is answered 429 with \<^verbatim>\<open>Retry-After: 5\<close>, the second 200 and the third 500; of
  the two retries the first is answered 200 and the second not at all.
\<close>

definition upstream_retry :: world where
  "upstream_retry n url =
     (if n = 0 then ok_response one_playlist ''/v1/browse/categories/jazz/playlists''
      else if n = 1 then ok_response (listing_doc three_tracks) ''/v1/playlists/p1/tracks''
      else if n = 2 then
        ok_response (features_doc [feature_object ''b2'', feature_object ''a1'', feature_object ''c3''])
          ''/v1/audio-features/''
      else if n = 3 then error_response 429 [(''retry-after'', ''5'')]
      else if n = 4 then Responds (analysis_resp ''a1'')
      else if n = 5 then error_response 500 []
      else if n = 6 then Responds (analysis_resp ''b2'')
      else NoResponse)"


definition first_pass_result :: song_data where
  "first_pass_result =
     [(''a1'', \<lparr>name = JStr ''A'', popularity = JNumber (Num 50),
               features = Some (feature_object ''a1''),
               analysis = Some (JStr ''analysis of a1'')\<rparr>),
      (''b2'', \<lparr>name = JStr ''B'', popularity = JNumber (Num 60),
               features = Some (feature_object ''b2''), analysis = None\<rparr>),
      (''c3'', \<lparr>name = JStr ''C'', popularity = JNumber (Num 70),
               features = Some (feature_object ''c3''), analysis = None\<rparr>)]"

definition retry_result :: song_data where
  "retry_result =
     [(''a1'', \<lparr>name = JStr ''A'', popularity = JNumber (Num 50),
               features = Some (feature_object ''a1''),
               analysis = Some (JStr ''analysis of a1'')\<rparr>),
      (''b2'', \<lparr>name = JStr ''B'', popularity = JNumber (Num 60),
               features = Some (feature_object ''b2''),
               analysis = Some (JStr ''analysis of b2'')\<rparr>),
      (''c3'', \<lparr>name = JStr ''C'', popularity = JNumber (Num 70),
               features = Some (feature_object ''c3''), analysis = None\<rparr>)]"

text \<open>What the first pass of that run hands to the sorting, and the failures among it.\<close>

definition first_pass_failures :: "settled list" where
  "first_pass_failures =
     [Fail \<lparr>err_status = 429, err_url = analysis_url ''b2'', err_timeout = Num 5\<rparr>,
      Fail \<lparr>err_status = 500, err_url = analysis_url ''c3'', err_timeout = NaN\<rparr>]"

definition first_pass_answers :: "settled list" where
  "first_pass_answers =
     [Fail \<lparr>err_status = 429, err_url = analysis_url ''b2'', err_timeout = Num 5\<rparr>,
      Resp (analysis_resp ''a1''),
      Fail \<lparr>err_status = 500, err_url = analysis_url ''c3'', err_timeout = NaN\<rparr>]"

text \<open>The same, but the first analysis request gets no response at all.\<close>

definition upstream_net :: world where
  "upstream_net n url = (if n = 3 then NoResponse else upstream_retry n url)"

text \<open>A genre with no playlist.\<close>

definition upstream_no_playlist :: world where
  "upstream_no_playlist n url =
     ok_response (playlists_doc []) ''/v1/browse/categories/jazz/playlists''"

text \<open>The features request is answered 503.\<close>

definition upstream_features_down :: world where
  "upstream_features_down n url = (if n = 2 then error_response 503 [] else upstream_retry n url)"


text \<open>
  One track is listed, but the features response holds a second feature object, whose id
  \<open>i\<close> the listing did not contain; every analysis request is answered 200, the second
  with a request path that ends in \<open>i\<close>.
\<close>

definition upstream_unlisted :: "string \<Rightarrow> world" where
  "upstream_unlisted i n url =
     (if n = 2 then
        ok_response (features_doc [feature_object ''a1'', feature_object i]) ''/v1/audio-features/''
      else if n = 4 then Responds (analysis_resp i)
      else upstream_ok n url)"

text \<open>
  One track is listed, and the features response holds two feature objects for it. The
  analysis request of the first is answered 200, that of the second 500, and the retry of
  the second gets no response.
\<close>

definition upstream_duplicate :: world where
  "upstream_duplicate n url =
     (if n = 2 then
        ok_response (features_doc [feature_object ''a1'', feature_object ''a1'']) ''/v1/audio-features/''
      else if n = 4 then error_response 500 []
      else if n = 5 then NoResponse
      else upstream_ok n url)"

text \<open>
  One track: its analysis request is answered 500, and the retry 200 by a response whose
  request path is \<^verbatim>\<open>/a1\<close>, which has no fourth segment.
\<close>

definition upstream_short_path :: world where
  "upstream_short_path n url =
     (if n = 3 then error_response 500 []
      else if n = 4 then ok_response (JStr ''analysis of a1'') ''/a1''
      else upstream_ok n url)"

text \<open>
  A listing of 101 items: a track without id, name and popularity, and 100 tracks whose
  ids are the words of one to a hundred letters \<^verbatim>\<open>x\<close>.
\<close>

definition long_ids :: "string list" where
  "long_ids = map (\<lambda>i. replicate (Suc i) CHR ''x'') [0..<100]"

definition long_listing :: "jsval list" where
  "long_listing =
     track_item JNull JNull JNull #
     map (\<lambda>k. track_item (JStr k) (JStr ''T'') (JNumber (Num 1))) long_ids"

definition upstream_long :: world where
  "upstream_long n url =
     (if n = 1 then ok_response (listing_doc long_listing) ''/v1/playlists/p1/tracks''
      else upstream_retry n url)"


section \<open>Sequencing\<close>

lemma and_then_Inl [simp]: "and_then (Inl e) f = Inl e"
  by (simp add: and_then_def)

lemma and_then_Inr [simp]: "and_then (Inr v) f = f v"
  by (simp add: and_then_def)

section \<open>Iteration and traces\<close>

lemma answers_append [simp]: "answers (xs @ ys) = answers xs @ answers ys"
  by (induction xs rule: answers.induct) simp_all

lemma for_each_invariant:
  assumes "for_each body xs s = (r, s')"
      and "P s"
      and "\<And>x t t'. x \<in> set xs \<Longrightarrow> P t \<Longrightarrow> body x t = Inr t' \<Longrightarrow> P t'"
  shows "P s'"
  using assms
proof (induction xs arbitrary: s)
  case Nil
  then show ?case by simp
next
  case (Cons x xs)
  show ?case
  proof (cases "body x s")
    case (Inl e)
    with Cons.prems show ?thesis by simp
  next
    case (Inr t)
    with Cons.prems have run: "for_each body xs t = (r, s')" by simp
    have "P t" using Cons.prems(2) Inr Cons.prems(3) [of x s t] by simp
    with run Cons.prems(3) show ?thesis
      by (intro Cons.IH [of t]) auto
  qed
qed

lemma extends_refl [simp]: "extends st st"
  by (simp add: extends_def)

lemma extends_trans: "extends a b \<Longrightarrow> extends b c \<Longrightarrow> extends a c"
  by (auto simp: extends_def)

lemma extends_songData [simp]: "extends st (st'\<lparr>songData := sd\<rparr>) = extends st st'"
  "extends (st\<lparr>songData := sd\<rparr>) st' = extends st st'"
  by (simp_all add: extends_def)

lemma Axios_eq:
  "Axios w url st =
     (settle (w (length (answers (trace st))) url) url,
      st\<lparr>trace := trace st @ [Request url (w (length (answers (trace st))) url)]\<rparr>)"
  by (simp add: Axios_def Let_def)

lemma Axios_extends: "Axios w url st = (p, st') \<Longrightarrow> extends st st'"
  by (auto simp: Axios_eq extends_def)

lemma on_playlists_extends: "on_playlists w r st = (p, st') \<Longrightarrow> extends st st'"
  by (auto simp: on_playlists_def split: sum.splits dest: Axios_extends)

lemma on_tracklist_extends: "on_tracklist w r st = (p, st') \<Longrightarrow> extends st st'"
  by (auto simp: on_tracklist_def split: sum.splits prod.splits option.splits dest!: Axios_extends)

lemma request_analysis_extends:
  "request_analysis w song (st, ps) = Inr (st', ps') \<Longrightarrow> extends st st'"
  by (auto simp: request_analysis_def Axios_eq extends_def and_then_def split: sum.splits)

lemma fan_out_extends:
  assumes "for_each (request_analysis w) songs (st, ps) = (r, (st', ps'))"
  shows "extends st st'"
proof -
  have "(\<lambda>s. extends st (fst s)) (st', ps')"
    using assms
    by (rule for_each_invariant) (auto dest!: request_analysis_extends elim: extends_trans)
  then show ?thesis by simp
qed

lemma on_features_extends: "on_features w r st = (p, st') \<Longrightarrow> extends st st'"
  by (auto simp: on_features_def split: sum.splits prod.splits option.splits dest: fan_out_extends)

lemma request_retry_extends:
  "request_retry w e (st, ps) = Inr (st', ps') \<Longrightarrow> extends st st'"
  by (auto simp: request_retry_def Axios_eq extends_def)

lemma retries_extend:
  assumes "for_each (request_retry w) errors (st, ps) = (r, (st', ps'))"
  shows "extends st st'"
proof -
  have "(\<lambda>s. extends st (fst s)) (st', ps')"
    using assms
    by (rule for_each_invariant) (auto dest!: request_retry_extends elim: extends_trans)
  then show ?thesis by simp
qed

lemma extends_append_left: "extends (st\<lparr>trace := trace st @ tr\<rparr>) st' \<Longrightarrow> extends st st'"
  by (auto simp: extends_def)

lemma extends_append_right [simp]:
  "extends st st' \<Longrightarrow> extends st (st'\<lparr>songData := sd, trace := trace st' @ tr\<rparr>)"
  "extends st st' \<Longrightarrow> extends st (st'\<lparr>trace := trace st' @ tr\<rparr>)"
  by (auto simp: extends_def)

lemma retry_pass_extends: "retry_pass w errors st = (res, st') \<Longrightarrow> extends st st'"
  by (auto simp: retry_pass_def split: prod.splits option.splits promise.splits
      dest!: retries_extend extends_append_left)

lemma on_analyses_extends: "on_analyses w songs st = (p, st') \<Longrightarrow> extends st st'"
  by (auto simp: on_analyses_def split: prod.splits option.splits if_splits dest: retry_pass_extends)

lemma then_do_extends:
  assumes "then_do (p, st) cb = (q, st')"
      and "\<And>v q st'. cb v st = (q, st') \<Longrightarrow> extends st st'"
  shows "extends st st'"
proof (cases p)
  case (Fulfilled v)
  with assms(1) have "cb v st = (q, st')" by (simp add: then_do_def)
  then show ?thesis by (rule assms(2))
next
  case (Rejected e)
  with assms(1) show ?thesis by (simp add: then_do_def)
qed

section \<open>The track listing\<close>

lemma and_then_eq_Inr: "and_then x f = Inr v \<longleftrightarrow> (\<exists>y. x = Inr y \<and> f y = Inr v)"
  by (cases x) simp_all

lemma length_update_le: "length (AList.update k v al) \<le> Suc (length al)"
  by (induction al) auto

lemma set_update_subset: "set (AList.update k v al) \<subseteq> insert (k, v) (set al)"
  by (induction al) auto

lemma own_put:
  "own (put s k rec) = (if k = ''__proto__'' then own s else AList.update k rec (own s))"
  by (simp add: put_def)

lemma add_track_Inr:
  assumes "add_track trackItem (furl, sd) = Inr (furl', sd')"
  obtains k rec where "listed_as trackItem k rec"
    "furl' = furl @ k @ '',''" "sd' = put sd k rec"
proof -
  from assms obtain track tid k nm pop where
    t: "get_prop trackItem ''track'' = Inr track" "get_prop track ''id'' = Inr tid"
       "key_of tid = Inr k" "get_prop track ''name'' = Inr nm"
       "get_prop track ''popularity'' = Inr pop"
    and p: "sd' = put sd k \<lparr>name = nm, popularity = pop, features = None, analysis = None\<rparr>"
    and f: "furl' = furl @ k @ '',''"
    by (auto simp: add_track_def and_then_eq_Inr)
  let ?rec = "\<lparr>name = nm, popularity = pop, features = None, analysis = None\<rparr>"
  from t have "listed_as trackItem k ?rec"
    by (simp add: listed_as_def)
  with p f show thesis using that by blast
qed

lemma listing_length:
  "for_each add_track items (furl, sd) = (r, (furl', sd')) \<Longrightarrow>
     length (own sd') \<le> length (own sd) + length items"
proof (induction items arbitrary: furl sd)
  case Nil
  then show ?case by simp
next
  case (Cons item items)
  show ?case
  proof (cases "add_track item (furl, sd)")
    case (Inl e)
    with Cons.prems show ?thesis by simp
  next
    case (Inr s)
    obtain furl1 sd1 where s: "s = (furl1, sd1)" by (cases s)
    from Inr s obtain k rec where "sd1 = put sd k rec"
      by (auto elim: add_track_Inr)
    then have "length (own sd1) \<le> Suc (length (own sd))" by (simp add: own_put length_update_le)
    moreover from Cons.prems Inr s have "for_each add_track items (furl1, sd1) = (r, (furl', sd'))"
      by simp
    then have "length (own sd') \<le> length (own sd1) + length items" by (rule Cons.IH)
    ultimately show ?thesis by simp
  qed
qed

lemma listing_records:
  assumes "for_each add_track items (furl, sd) = (r, (furl', sd'))"
  shows "distinct (map fst (own sd)) \<longrightarrow> distinct (map fst (own sd'))"
    and "\<forall>(k, rec) \<in> set (own sd').
           (k, rec) \<in> set (own sd) \<or> (\<exists>item \<in> set items. listed_as item k rec)"
proof -
  let ?P = "\<lambda>s. (distinct (map fst (own sd)) \<longrightarrow> distinct (map fst (own (snd s))))
      \<and> (\<forall>(k, rec) \<in> set (own (snd s)).
            (k, rec) \<in> set (own sd) \<or> (\<exists>item \<in> set items. listed_as item k rec))"
  have "?P (furl', sd')"
    using assms
  proof (rule for_each_invariant)
    show "?P (furl, sd)" by auto
  next
    fix item t t'
    assume item: "item \<in> set items" and inv: "?P t" and step: "add_track item t = Inr t'"
    obtain f1 s1 where t: "t = (f1, s1)" by (cases t)
    obtain f2 s2 where t': "t' = (f2, s2)" by (cases t')
    from step t t' obtain k rec where kr: "listed_as item k rec" "s2 = put s1 k rec"
      by (auto elim: add_track_Inr)
    show "?P t'"
    proof (cases "k = ''__proto__''")
      case True
      with kr(2) have "own s2 = own s1" by (simp add: own_put)
      with inv t t' show ?thesis by simp
    next
      case False
      with kr(2) have s2: "own s2 = AList.update k rec (own s1)" by (simp add: own_put)
      have "set (own s2) \<subseteq> insert (k, rec) (set (own s1))"
        by (simp add: s2 set_update_subset)
      with inv t item kr(1)
      have "\<forall>(k, rec) \<in> set (own s2).
              (k, rec) \<in> set (own sd) \<or> (\<exists>item \<in> set items. listed_as item k rec)"
        by auto
      moreover from inv t have "distinct (map fst (own sd)) \<longrightarrow> distinct (map fst (own s2))"
        by (auto simp: s2 AList.distinct_update)
      ultimately show ?thesis using t' by simp
    qed
  qed
  then show "distinct (map fst (own sd)) \<longrightarrow> distinct (map fst (own sd'))"
    and "\<forall>(k, rec) \<in> set (own sd').
           (k, rec) \<in> set (own sd) \<or> (\<exists>item \<in> set items. listed_as item k rec)"
    by simp_all
qed

section \<open>The stages up to the features request\<close>

lemma settle_Fulfilled:
  "settle out url = Fulfilled r \<longleftrightarrow> out = Responds r \<and> 200 \<le> status r \<and> status r < 300"
  by (auto simp: settle_def split: outcome.splits)

lemma settle_Responds:
  "settle (Responds r) url =
     (if 200 \<le> status r \<and> status r < 300 then Fulfilled r else Rejected (AxiosError (Some r) url))"
  by (simp add: settle_def)

lemma stage_playlists_eq:
  "stage_playlists w g =
     (settle (w 0 (JStr (playlist_url g))) (JStr (playlist_url g)),
      \<lparr>songData = empty_store, trace = [Request (JStr (playlist_url g)) (w 0 (JStr (playlist_url g)))]\<rparr>)"
  by (simp add: stage_playlists_def Axios_eq init_state_def)

lemma stage_tracklist_cases:
  assumes "stage_tracklist w g = (p, st)"
  obtains (early) e where "p = Rejected e" "songData st = empty_store"
      "trace st = [Request (JStr (playlist_url g)) (w 0 (JStr (playlist_url g)))]"
  | (asked) r1 href where "w 0 (JStr (playlist_url g)) = Responds r1"
      "tracklist_href r1 = Inr href" "p = settle (w 1 href) href" "songData st = empty_store"
      "trace st = [Request (JStr (playlist_url g)) (Responds r1), Request href (w 1 href)]"
proof (cases "settle (w 0 (JStr (playlist_url g))) (JStr (playlist_url g))")
  case (Rejected e)
  with assms have "p = Rejected e" "songData st = empty_store"
      "trace st = [Request (JStr (playlist_url g)) (w 0 (JStr (playlist_url g)))]"
    by (auto simp: stage_tracklist_def stage_playlists_eq then_do_def)
  then show thesis by (rule early)
next
  case (Fulfilled r1)
  then have r1: "w 0 (JStr (playlist_url g)) = Responds r1" by (simp add: settle_Fulfilled)
  show thesis
  proof (cases "tracklist_href r1")
    case (Inl e)
    with assms Fulfilled have "p = Rejected e" "songData st = empty_store"
        "trace st = [Request (JStr (playlist_url g)) (w 0 (JStr (playlist_url g)))]"
      by (auto simp: stage_tracklist_def stage_playlists_eq then_do_def on_playlists_def)
    then show thesis by (rule early)
  next
    case (Inr href)
    with assms Fulfilled r1 have "p = settle (w 1 href) href" "songData st = empty_store"
        "trace st = [Request (JStr (playlist_url g)) (Responds r1), Request href (w 1 href)]"
      by (auto simp: stage_tracklist_def stage_playlists_eq then_do_def on_playlists_def Axios_eq)
    with r1 Inr show thesis by (intro asked [of r1 href])
  qed
qed

lemma stage_features_cases:
  assumes "stage_features w g = (p, st)"
  obtains (early) e where "p = Rejected e" "length (answers (trace st)) \<le> 2"
  | (asked) r1 href r2 items furl where
      "w 0 (JStr (playlist_url g)) = Responds r1" "tracklist_href r1 = Inr href"
      "w 1 href = Responds r2"
      "and_then (get_prop (data r2) ''items'') as_array = Inr items"
      "for_each add_track items (feature_url_prefix, empty_store) = (None, (furl, songData st))"
      "p = settle (w 2 (JStr (butlast furl))) (JStr (butlast furl))"
      "trace st = [Request (JStr (playlist_url g)) (Responds r1), Request href (Responds r2),
                   Request (JStr (butlast furl)) (w 2 (JStr (butlast furl)))]"
proof -
  obtain p2 st2 where s2: "stage_tracklist w g = (p2, st2)" by (cases "stage_tracklist w g")
  from s2 show thesis
  proof (cases rule: stage_tracklist_cases)
    case (early e)
    with assms s2 have "p = Rejected e" "st = st2"
      by (auto simp: stage_features_def then_do_def)
    with early show thesis by (intro that(1) [of e]) auto
  next
    case (asked r1 href)
    show thesis
    proof (cases p2)
      case (Rejected e)
      with assms s2 have "p = Rejected e" "st = st2"
        by (auto simp: stage_features_def then_do_def)
      with asked show thesis by (intro that(1) [of e]) auto
    next
      case (Fulfilled r2)
      with asked(3) [symmetric] have "settle (w 1 href) href = Fulfilled r2" by simp
      then have r2: "w 1 href = Responds r2" by (simp only: settle_Fulfilled)
      from assms s2 Fulfilled have on: "on_tracklist w r2 st2 = (p, st)"
        by (simp add: stage_features_def then_do_def)
      show thesis
      proof (cases "and_then (get_prop (data r2) ''items'') as_array")
        case (Inl e)
        with on have "p = Rejected e" "st = st2" by (auto simp: on_tracklist_def)
        with asked show thesis by (intro that(1) [of e]) auto
      next
        case (Inr items)
        obtain res furl sd where loop: "for_each add_track items (feature_url_prefix, empty_store) = (res, (furl, sd))"
          by (cases "for_each add_track items (feature_url_prefix, empty_store)") auto
        show thesis
        proof (cases res)
          case (Some e)
          with on Inr loop asked have "p = Rejected e" "st = st2" by (auto simp: on_tracklist_def)
          with asked show thesis by (intro that(1) [of e]) auto
        next
          case None
          with on Inr loop asked r2 show thesis
            by (intro that(2) [of r1 href r2 items furl]) (auto simp: on_tracklist_def Axios_eq numeral_2_eq_2)
        qed
      qed
    qed
  qed
qed

section \<open>Attaching features and analyses\<close>

lemma last_opt_simps [simp]:
  "last_opt [] = None"
  "last_opt (x # xs) = (case last_opt xs of None \<Rightarrow> Some x | Some y \<Rightarrow> Some y)"
  by (simp_all add: last_opt_def)

lemma last_opt_append:
  "last_opt (xs @ ys) = (case last_opt ys of None \<Rightarrow> last_opt xs | Some y \<Rightarrow> Some y)"
  by (induction xs) (auto split: option.splits)

lemma with_features_None [simp]: "with_features None rec = rec"
  by (simp add: with_features_def)

lemma with_analysis_None [simp]: "with_analysis None rec = rec"
  by (simp add: with_analysis_def)

lemma with_features_update:
  "with_features f (rec\<lparr>features := Some s\<rparr>) =
     with_features (case f of None \<Rightarrow> Some s | Some y \<Rightarrow> Some y) rec"
  by (cases f) (simp_all add: with_features_def)

lemma with_analysis_update:
  "with_analysis f (rec\<lparr>analysis := Some (data r)\<rparr>) =
     with_analysis (case f of None \<Rightarrow> Some r | Some y \<Rightarrow> Some y) rec"
  by (cases f) (simp_all add: with_analysis_def)

lemma map_of_None_keys: "map_of sd k = None \<longleftrightarrow> k \<notin> fst ` set sd"
  by (simp add: map_of_eq_None_iff)

lemma keys_update_present:
  "map_of sd k = Some rec \<Longrightarrow> fst ` set (AList.update k v sd) = fst ` set sd"
  by (auto simp: AList.dom_update dest: map_of_SomeD intro: rev_image_eqI)

lemma issue_length [simp]: "length (issue w n urls) = length urls"
  by (induction urls arbitrary: n) simp_all

lemma answers_requests [simp]:
  "length urls = length outs \<Longrightarrow> answers (map2 Request urls outs) = outs"
  by (induction urls outs rule: list_induct2) simp_all

lemma sequence_Inl: "sequence xs = Inl e \<Longrightarrow> Inl e \<in> set xs"
proof (induction xs)
  case Nil
  then show ?case by simp
next
  case (Cons x xs)
  then show ?case
    by (cases x; cases "sequence xs") auto
qed

lemma to_string_error: "to_string v = Inl e \<Longrightarrow> e = TypeError"
proof (induction v rule: to_string.induct)
  case (7 xs)
  let ?f = "\<lambda>x. if x = JUndefined \<or> x = JNull then Inr [] else to_string x"
  from 7(2) have "sequence (map ?f xs) = Inl e"
    by (cases "sequence (map ?f xs)") simp_all
  then have "Inl e \<in> set (map ?f xs)" by (rule sequence_Inl)
  then obtain x where x: "x \<in> set xs" "?f x = Inl e" by auto
  then have "\<not> (x = JUndefined \<or> x = JNull)" "to_string x = Inl e"
    by (auto split: if_splits)
  with x(1) show ?case by (intro 7(1) [of x]) auto
qed (auto split: if_splits)


lemma set_field_simps [simp]:
  "set_field Features v rec = rec\<lparr>features := Some v\<rparr>"
  "set_field Analysis v rec = rec\<lparr>analysis := Some v\<rparr>"
  by (simp_all add: set_field_def)

lemma lookup_own: "map_of (own s) k = Some rec \<Longrightarrow> lookup s k = OwnRecord rec"
  by (simp add: lookup_def)

lemma lookup_OwnRecord: "lookup s k = OwnRecord rec \<longleftrightarrow> map_of (own s) k = Some rec"
  by (auto simp: lookup_def split: option.splits)

lemma lookup_NoProperty:
  "k \<notin> fst ` set (own s) \<Longrightarrow> k \<notin> set inherited_keys \<Longrightarrow> lookup s k = NoProperty"
  by (cases "proto_record s")
     (simp_all add: lookup_def map_of_None_keys [symmetric] inherited_keys_def record_prop_def
       object_prop_def)

lemma assign_own_key:
  "map_of (own s) k = Some rec \<Longrightarrow>
     assign s k fld v = Inr (s\<lparr>own := AList.update k (set_field fld v rec) (own s)\<rparr>)"
  by (simp add: assign_def lookup_own)

lemma assign_NoProperty:
  "k \<notin> fst ` set (own s) \<Longrightarrow> k \<notin> set inherited_keys \<Longrightarrow> assign s k fld v = Inl TypeError"
  by (simp add: assign_def lookup_NoProperty)

lemma assign_error: "assign s k fld v = Inl e \<Longrightarrow> e = TypeError"
  by (auto simp: assign_def split: target.splits jsval.splits)

lemma assign_Inr_key:
  assumes "assign s k fld v = Inr s'"
  shows "k \<in> fst ` set (own s) \<or> k \<in> set inherited_keys"
proof (rule ccontr)
  assume "\<not> ?thesis"
  then have "assign s k fld v = Inl TypeError" by (simp add: assign_NoProperty)
  with assms show False by simp
qed

text \<open>An assignment changes the own properties only at an own key.\<close>

lemma assign_own:
  assumes "assign s k fld v = Inr s'"
  shows "own s' =
     (case map_of (own s) k of
        Some rec \<Rightarrow> AList.update k (set_field fld v rec) (own s)
      | None \<Rightarrow> own s)"
proof (cases "map_of (own s) k")
  case (Some rec)
  with assms show ?thesis by (auto simp: assign_own_key)
next
  case None
  then have "\<And>rec. lookup s k \<noteq> OwnRecord rec" by (simp add: lookup_OwnRecord)
  with assms None show ?thesis
    by (cases "lookup s k"; cases fld) (auto simp: assign_def split: jsval.splits)
qed

lemma map_of_assign:
  assumes "assign s k fld v = Inr s'"
  shows "map_of (own s') k' =
     (if k' = k then map_option (set_field fld v) (map_of (own s) k') else map_of (own s) k')"
  by (cases "map_of (own s) k") (simp_all add: assign_own [OF assms] AList.update_conv')

lemma keys_assign:
  assumes "assign s k fld v = Inr s'"
  shows "fst ` set (own s') = fst ` set (own s)"
  by (cases "map_of (own s) k") (simp_all add: assign_own [OF assms] keys_update_present)

lemma request_analysis_Inr:
  assumes "request_analysis w song (st, ps) = Inr (st', ps')"
  obtains k sd1 where "feature_key song = Inr k"
    "assign (songData st) k Features song = Inr sd1"
    "st' = st\<lparr>songData := sd1,
              trace := trace st @ [Request (analysis_url_of song)
                         (w (length (answers (trace st))) (analysis_url_of song))]\<rparr>"
    "ps' = ps @ [catch_analysis (settle (w (length (answers (trace st))) (analysis_url_of song))
                               (analysis_url_of song))]"
  using assms
  by (auto simp: request_analysis_def and_then_eq_Inr Axios_eq attach_features_def
      feature_key_def analysis_url_of_def)




lemma fan_out_effect:
  assumes "for_each (request_analysis w) songs (st, ps) = (None, (st', ps'))"
  shows "(\<forall>k. map_of (own (songData st')) k =
           map_option (with_features (last_opt (filter (\<lambda>s. feature_key s = Inr k) songs)))
             (map_of (own (songData st)) k))
    \<and> trace st' = trace st @ map2 Request (map analysis_url_of songs)
           (issue w (length (answers (trace st))) (map analysis_url_of songs))
    \<and> ps' = ps @ map2 (\<lambda>url out. catch_analysis (settle out url)) (map analysis_url_of songs)
           (issue w (length (answers (trace st))) (map analysis_url_of songs))"
  using assms
proof (induction songs arbitrary: st ps)
  case Nil
  then show ?case by (simp add: option.map_ident)
next
  case (Cons song songs)
  from Cons.prems obtain st1 ps1 where step: "request_analysis w song (st, ps) = Inr (st1, ps1)"
    and rest: "for_each (request_analysis w) songs (st1, ps1) = (None, (st', ps'))"
    by (auto split: sum.splits)
  from step obtain k1 sd1 where k1: "feature_key song = Inr k1"
    and sd1: "assign (songData st) k1 Features song = Inr sd1"
    and st1: "st1 = st\<lparr>songData := sd1,
              trace := trace st @ [Request (analysis_url_of song)
                         (w (length (answers (trace st))) (analysis_url_of song))]\<rparr>"
    and ps1: "ps1 = ps @ [catch_analysis (settle (w (length (answers (trace st))) (analysis_url_of song))
                               (analysis_url_of song))]"
    by (rule request_analysis_Inr)
  note IH = Cons.IH [OF rest]
  have m1: "map_of (own (songData st1)) k =
        (if k = k1 then map_option (\<lambda>rec. rec\<lparr>features := Some song\<rparr>) (map_of (own (songData st)) k)
         else map_of (own (songData st)) k)" for k
    using map_of_assign [OF sd1, of k] by (simp add: st1 fun_eq_iff cong: map_option_cong)
  have "map_of (own (songData st')) k =
           map_option (with_features (last_opt (filter (\<lambda>s. feature_key s = Inr k) (song # songs))))
             (map_of (own (songData st)) k)" for k
    using IH k1
    by (cases "k = k1"; cases "map_of (own (songData st)) k") (simp_all add: m1 with_features_update)
  moreover have "trace st' = trace st @ map2 Request (map analysis_url_of (song # songs))
           (issue w (length (answers (trace st))) (map analysis_url_of (song # songs)))"
    using IH by (simp add: st1)
  moreover have "ps' = ps @ map2 (\<lambda>url out. catch_analysis (settle out url)) (map analysis_url_of (song # songs))
           (issue w (length (answers (trace st))) (map analysis_url_of (song # songs)))"
    using IH by (simp add: st1 ps1)
  ultimately show ?case by blast
qed

lemma attach_analysis_Inr:
  assumes "attach_analysis song sd = Inr sd'"
  obtains r k where "song = Resp r" "path_key r = Inr k"
    "assign sd k Analysis (data r) = Inr sd'"
  using assms
  by (cases song) (auto simp: attach_analysis_def and_then_eq_Inr path_key_def)

lemma attach_analysis_error: "attach_analysis song sd = Inl e \<Longrightarrow> e = TypeError"
  by (cases song)
     (auto simp: attach_analysis_def key_of_def and_then_def split: sum.splits
       dest: to_string_error assign_error)

lemma sort_answer_eq:
  "sort_answer song (sd, errors) =
     (if status_of song \<noteq> Some 200 then Inr (sd, errors @ [song])
      else and_then (attach_analysis song sd) (\<lambda>sd'. Inr (sd', errors)))"
  by (simp add: sort_answer_def)

lemma merge_retry_eq:
  "merge_retry song (sd, i) =
     (if status_of song = Some 200 then and_then (attach_analysis song sd) (\<lambda>sd'. Inr (sd', i))
      else Inr (sd, i + 1))"
  by (simp add: merge_retry_def)

lemma request_retry_eq:
  "request_retry w error (st, promises) =
     Inr (st\<lparr>trace := trace st @ [Request (url_of error) (w (length (answers (trace st))) (url_of error))]\<rparr>,
          promises @ [catch_retry (settle (w (length (answers (trace st))) (url_of error)) (url_of error))])"
  by (simp add: request_retry_def Axios_eq)

lemma sort_effect:
  assumes "for_each sort_answer songs (sd, errs) = (None, (sd', errs'))"
  shows "(\<forall>k. map_of (own sd') k =
            map_option (with_analysis (last_opt (filter (\<lambda>r. path_key r = Inr k) (resp_200 songs))))
              (map_of (own sd) k))
         \<and> fst ` set (own sd') = fst ` set (own sd)
         \<and> errs' = errs @ filter (\<lambda>s. status_of s \<noteq> Some 200) songs"
  using assms
proof (induction songs arbitrary: sd errs)
  case Nil
  then show ?case by (simp add: option.map_ident)
next
  case (Cons song songs)
  show ?case
  proof (cases "status_of song = Some 200")
    case False
    with Cons.prems have rest: "for_each sort_answer songs (sd, errs @ [song]) = (None, (sd', errs'))"
      by (simp add: sort_answer_eq)
    from False have "resp_200 (song # songs) = resp_200 songs"
      by (cases song) auto
    with Cons.IH [OF rest] False show ?thesis by simp
  next
    case True
    with Cons.prems obtain sd1 where a: "attach_analysis song sd = Inr sd1"
      and rest: "for_each sort_answer songs (sd1, errs) = (None, (sd', errs'))"
      by (auto simp: sort_answer_eq and_then_def split: sum.splits)
    from a obtain r k1 where s: "song = Resp r" and k1: "path_key r = Inr k1"
      and sd1: "assign sd k1 Analysis (data r) = Inr sd1"
      by (rule attach_analysis_Inr)
    from True s have r200: "status r = 200" by simp
    note IH = Cons.IH [OF rest]
    have m1: "map_of (own sd1) k =
        (if k = k1 then map_option (\<lambda>rec. rec\<lparr>analysis := Some (data r)\<rparr>) (map_of (own sd) k)
         else map_of (own sd) k)" for k
      using map_of_assign [OF sd1, of k] by (simp add: fun_eq_iff cong: map_option_cong)
    have "map_of (own sd') k =
            map_option (with_analysis (last_opt (filter (\<lambda>r. path_key r = Inr k) (resp_200 (song # songs)))))
              (map_of (own sd) k)" for k
      using IH k1 s r200
      by (cases "k = k1"; cases "map_of (own sd) k") (simp_all add: m1 with_analysis_update)
    moreover have "fst ` set (own sd') = fst ` set (own sd)"
      using IH keys_assign [OF sd1] by simp
    moreover have "errs' = errs @ filter (\<lambda>s. status_of s \<noteq> Some 200) (song # songs)"
      using IH True by simp
    ultimately show ?thesis by blast
  qed
qed

lemma merge_effect:
  assumes "for_each merge_retry retries (sd, i) = (None, (sd', i'))"
  shows "(\<forall>k. map_of (own sd') k =
            map_option (with_analysis (last_opt (filter (\<lambda>r. path_key r = Inr k) (resp_200 retries))))
              (map_of (own sd) k))
         \<and> fst ` set (own sd') = fst ` set (own sd)
         \<and> i' = i + length (filter (\<lambda>s. status_of s \<noteq> Some 200) retries)"
  using assms
proof (induction retries arbitrary: sd i)
  case Nil
  then show ?case by (simp add: option.map_ident)
next
  case (Cons song songs)
  show ?case
  proof (cases "status_of song = Some 200")
    case False
    with Cons.prems have rest: "for_each merge_retry songs (sd, i + 1) = (None, (sd', i'))"
      by (simp add: merge_retry_eq)
    from False have "resp_200 (song # songs) = resp_200 songs"
      by (cases song) auto
    with Cons.IH [OF rest] False show ?thesis by simp
  next
    case True
    with Cons.prems obtain sd1 where a: "attach_analysis song sd = Inr sd1"
      and rest: "for_each merge_retry songs (sd1, i) = (None, (sd', i'))"
      by (auto simp: merge_retry_eq and_then_def split: sum.splits)
    from a obtain r k1 where s: "song = Resp r" and k1: "path_key r = Inr k1"
      and sd1: "assign sd k1 Analysis (data r) = Inr sd1"
      by (rule attach_analysis_Inr)
    from True s have r200: "status r = 200" by simp
    note IH = Cons.IH [OF rest]
    have m1: "map_of (own sd1) k =
        (if k = k1 then map_option (\<lambda>rec. rec\<lparr>analysis := Some (data r)\<rparr>) (map_of (own sd) k)
         else map_of (own sd) k)" for k
      using map_of_assign [OF sd1, of k] by (simp add: fun_eq_iff cong: map_option_cong)
    have "map_of (own sd') k =
            map_option (with_analysis (last_opt (filter (\<lambda>r. path_key r = Inr k) (resp_200 (song # songs)))))
              (map_of (own sd) k)" for k
      using IH k1 s r200
      by (cases "k = k1"; cases "map_of (own sd) k") (simp_all add: m1 with_analysis_update)
    moreover have "fst ` set (own sd') = fst ` set (own sd)"
      using IH keys_assign [OF sd1] by simp
    moreover have "i' = i + length (filter (\<lambda>s. status_of s \<noteq> Some 200) (song # songs))"
      using IH True by simp
    ultimately show ?thesis by blast
  qed
qed

text \<open>The merge loop cannot fail when every 200 names a record.\<close>

lemma merge_succeeds:
  assumes "\<forall>r \<in> set (resp_200 retries). \<exists>k. path_key r = Inr k \<and> k \<in> fst ` set (own sd)"
      and "\<forall>s \<in> set retries. status_of s = Some 200 \<longrightarrow> (\<exists>r. s = Resp r)"
  shows "\<exists>sd' i'. for_each merge_retry retries (sd, i) = (None, (sd', i'))"
  using assms
proof (induction retries arbitrary: sd i)
  case Nil
  then show ?case by simp
next
  case (Cons song songs)
  show ?case
  proof (cases "status_of song = Some 200")
    case False
    then have "resp_200 (song # songs) = resp_200 songs" by (cases song) auto
    with Cons.prems have "\<exists>sd' i'. for_each merge_retry songs (sd, i + 1) = (None, (sd', i'))"
      by (intro Cons.IH) auto
    with False show ?thesis by (simp add: merge_retry_eq)
  next
    case True
    with Cons.prems(2) obtain r where s: "song = Resp r" by auto
    with True have r200: "status r = 200" by simp
    with s Cons.prems(1) obtain k where k: "path_key r = Inr k" "k \<in> fst ` set (own sd)" by auto
    then obtain rec where rec: "map_of (own sd) k = Some rec"
      by (cases "map_of (own sd) k") (auto simp: map_of_None_keys)
    let ?sd1 = "sd\<lparr>own := AList.update k (rec\<lparr>analysis := Some (data r)\<rparr>) (own sd)\<rparr>"
    have a: "attach_analysis song sd = Inr ?sd1"
      using s k assign_own_key [OF rec, of Analysis "data r"]
      by (simp add: attach_analysis_def path_key_def)
    have keys: "fst ` set (AList.update k (rec\<lparr>analysis := Some (data r)\<rparr>) (own sd)) = fst ` set (own sd)"
      using rec by (rule keys_update_present)
    have "\<exists>sd' i'. for_each merge_retry songs (?sd1, i) = (None, (sd', i'))"
      using Cons.prems s r200 by (intro Cons.IH) (auto simp: keys)
    with True a show ?thesis by (simp add: merge_retry_eq)
  qed
qed

lemma retry_requests_effect:
  "for_each (request_retry w) errors (st, ps) =
     (None,
      (st\<lparr>trace := trace st @ map2 Request (map url_of errors)
                       (issue w (length (answers (trace st))) (map url_of errors))\<rparr>,
       ps @ map2 (\<lambda>url out. catch_retry (settle out url)) (map url_of errors)
              (issue w (length (answers (trace st))) (map url_of errors))))"
proof (induction errors arbitrary: st ps)
  case Nil
  then show ?case by simp
next
  case (Cons e errors)
  show ?case
    by (simp add: request_retry_eq Cons.IH)
qed

lemma promise_all_map_Fulfilled: "promise_all (map Fulfilled vs) = Fulfilled vs"
  by (induction vs) simp_all

lemma promise_all_FulfilledD: "promise_all ps = Fulfilled vs \<Longrightarrow> ps = map Fulfilled vs"
proof (induction ps arbitrary: vs)
  case Nil
  then show ?case by simp
next
  case (Cons p ps)
  show ?case
  proof (cases p)
    case (Rejected e)
    with Cons.prems show ?thesis by simp
  next
    case (Fulfilled v)
    with Cons.prems obtain vs' where "promise_all ps = Fulfilled vs'" "vs = v # vs'"
      by (cases "promise_all ps") simp_all
    with Cons.IH [of vs'] Fulfilled show ?thesis by simp
  qed
qed

lemma catch_retry_cases:
  "catch_retry (settle out url) =
     Fulfilled (case out of
        Responds r \<Rightarrow> if 200 \<le> status r \<and> status r < 300 then Resp r else Empty
      | NoResponse \<Rightarrow> Empty)"
  by (simp add: catch_retry_def settle_def split: outcome.splits)

lemma retries_settle:
  assumes "length urls = length outs"
  shows "\<exists>retries. promise_all (map2 (\<lambda>url out. catch_retry (settle out url)) urls outs) = Fulfilled retries
     \<and> resp_200 retries = responses_200 outs
     \<and> length (filter (\<lambda>s. status_of s \<noteq> Some 200) retries) = count_not_200 outs
     \<and> (\<forall>s \<in> set retries. status_of s = Some 200 \<longrightarrow> (\<exists>r. s = Resp r))"
  using assms
proof (induction urls outs rule: list_induct2)
  case Nil
  then show ?case by (simp add: count_not_200_def)
next
  case (Cons url urls out outs)
  then obtain retries where
    IH: "promise_all (map2 (\<lambda>url out. catch_retry (settle out url)) urls outs) = Fulfilled retries"
      "resp_200 retries = responses_200 outs"
      "length (filter (\<lambda>s. status_of s \<noteq> Some 200) retries) = count_not_200 outs"
      "\<forall>s \<in> set retries. status_of s = Some 200 \<longrightarrow> (\<exists>r. s = Resp r)"
    by blast
  show ?case
  proof (cases out)
    case NoResponse
    with IH show ?thesis
      by (intro exI [of _ "Empty # retries"]) (simp add: catch_retry_cases count_not_200_def)
  next
    case (Responds r)
    show ?thesis
    proof (cases "200 \<le> status r \<and> status r < 300")
      case True
      with IH Responds show ?thesis
        by (intro exI [of _ "Resp r # retries"]) (simp add: catch_retry_cases count_not_200_def)
    next
      case False
      with IH Responds show ?thesis
        by (intro exI [of _ "Empty # retries"]) (auto simp add: catch_retry_cases count_not_200_def)
    qed
  qed
qed

lemma catch_analysis_Fulfilled:
  "catch_analysis (settle out url) = Fulfilled s \<longleftrightarrow>
     (\<exists>r. out = Responds r \<and>
        (if 200 \<le> status r \<and> status r < 300 then s = Resp r
         else s = Fail \<lparr>err_status = status r, err_url = url, err_timeout = retry_after r\<rparr>))"
  by (cases out) (auto simp: catch_analysis_def settle_def on_analysis_error_def)

lemma analyses_settle:
  assumes "length urls = length outs"
      and "promise_all (map2 (\<lambda>url out. catch_analysis (settle out url)) urls outs) = Fulfilled songs"
  shows "resp_200 songs = responses_200 outs \<and> length songs = length outs
     \<and> (\<forall>s \<in> set songs. status_of s = Some 200 \<longrightarrow> (\<exists>r. s = Resp r))"
  using assms
proof (induction urls outs arbitrary: songs rule: list_induct2)
  case Nil
  then show ?case by auto
next
  case (Cons url urls out outs)
  from Cons.prems obtain s rest where songs: "songs = s # rest"
    and s: "catch_analysis (settle out url) = Fulfilled s"
    and rest: "promise_all (map2 (\<lambda>url out. catch_analysis (settle out url)) urls outs) = Fulfilled rest"
    by (cases songs) (auto dest!: promise_all_FulfilledD simp: promise_all_map_Fulfilled)
  from s obtain r where r: "out = Responds r"
    "if 200 \<le> status r \<and> status r < 300 then s = Resp r
     else s = Fail \<lparr>err_status = status r, err_url = url, err_timeout = retry_after r\<rparr>"
    by (auto simp: catch_analysis_Fulfilled)
  from Cons.IH [OF rest] r songs show ?case
    by (auto split: if_splits)
qed

lemma keys_of_maps:
  assumes "\<forall>k. map_of a k = map_option (f k) (map_of b k)"
  shows "fst ` set a = fst ` set b"
proof -
  have "k \<notin> fst ` set a \<longleftrightarrow> k \<notin> fst ` set b" for k
    using assms [rule_format, of k] by (simp add: map_of_None_keys [symmetric])
  then show ?thesis by blast
qed

text \<open>
  Every feature object, and every response of status 200, that a loop has got past without
  an error names a record or a property that \<^verbatim>\<open>songData\<close> inherits.
\<close>

lemma fan_out_keys:
  assumes "for_each (request_analysis w) songs (st, ps) = (None, (st', ps'))"
  shows "\<forall>s \<in> set songs. \<exists>k. feature_key s = Inr k
           \<and> (k \<in> fst ` set (own (songData st)) \<or> k \<in> set inherited_keys)"
  using assms
proof (induction songs arbitrary: st ps)
  case Nil
  then show ?case by simp
next
  case (Cons song songs)
  from Cons.prems obtain st1 ps1 where step: "request_analysis w song (st, ps) = Inr (st1, ps1)"
    and rest: "for_each (request_analysis w) songs (st1, ps1) = (None, (st', ps'))"
    by (auto split: sum.splits)
  from step obtain k1 sd1 where k1: "feature_key song = Inr k1"
    and sd1: "assign (songData st) k1 Features song = Inr sd1"
    and st1: "st1 = st\<lparr>songData := sd1,
              trace := trace st @ [Request (analysis_url_of song)
                         (w (length (answers (trace st))) (analysis_url_of song))]\<rparr>"
    by (rule request_analysis_Inr)
  from sd1 st1 have keys: "fst ` set (own (songData st1)) = fst ` set (own (songData st))"
    by (simp add: keys_assign)
  from sd1 have "k1 \<in> fst ` set (own (songData st)) \<or> k1 \<in> set inherited_keys"
    by (rule assign_Inr_key)
  with k1 Cons.IH [OF rest] keys show ?case by auto
qed

lemma sort_keys:
  assumes "for_each sort_answer songs (sd, errs) = (None, (sd', errs'))"
  shows "\<forall>r \<in> set (resp_200 songs). \<exists>k. path_key r = Inr k
           \<and> (k \<in> fst ` set (own sd) \<or> k \<in> set inherited_keys)"
  using assms
proof (induction songs arbitrary: sd errs)
  case Nil
  then show ?case by simp
next
  case (Cons song songs)
  show ?case
  proof (cases "status_of song = Some 200")
    case False
    with Cons.prems have rest: "for_each sort_answer songs (sd, errs @ [song]) = (None, (sd', errs'))"
      by (simp add: sort_answer_eq)
    from False have "resp_200 (song # songs) = resp_200 songs"
      by (cases song) auto
    with Cons.IH [OF rest] show ?thesis by simp
  next
    case True
    with Cons.prems obtain sd1 where a: "attach_analysis song sd = Inr sd1"
      and rest: "for_each sort_answer songs (sd1, errs) = (None, (sd', errs'))"
      by (auto simp: sort_answer_eq and_then_def split: sum.splits)
    from a obtain r k1 where s: "song = Resp r" and k1: "path_key r = Inr k1"
      and sd1: "assign sd k1 Analysis (data r) = Inr sd1"
      by (rule attach_analysis_Inr)
    from sd1 have keys: "fst ` set (own sd1) = fst ` set (own sd)" by (rule keys_assign)
    from sd1 have "k1 \<in> fst ` set (own sd) \<or> k1 \<in> set inherited_keys" by (rule assign_Inr_key)
    with k1 s Cons.IH [OF rest] keys show ?thesis by auto
  qed
qed

lemma merge_keys:
  assumes "for_each merge_retry retries (sd, i) = (None, (sd', i'))"
  shows "\<forall>r \<in> set (resp_200 retries). \<exists>k. path_key r = Inr k
           \<and> (k \<in> fst ` set (own sd) \<or> k \<in> set inherited_keys)"
  using assms
proof (induction retries arbitrary: sd i)
  case Nil
  then show ?case by simp
next
  case (Cons song songs)
  show ?case
  proof (cases "status_of song = Some 200")
    case False
    with Cons.prems have rest: "for_each merge_retry songs (sd, i + 1) = (None, (sd', i'))"
      by (simp add: merge_retry_eq)
    from False have "resp_200 (song # songs) = resp_200 songs"
      by (cases song) auto
    with Cons.IH [OF rest] show ?thesis by simp
  next
    case True
    with Cons.prems obtain sd1 where a: "attach_analysis song sd = Inr sd1"
      and rest: "for_each merge_retry songs (sd1, i) = (None, (sd', i'))"
      by (auto simp: merge_retry_eq and_then_def split: sum.splits)
    from a obtain r k1 where s: "song = Resp r" and k1: "path_key r = Inr k1"
      and sd1: "assign sd k1 Analysis (data r) = Inr sd1"
      by (rule attach_analysis_Inr)
    from sd1 have keys: "fst ` set (own sd1) = fst ` set (own sd)" by (rule keys_assign)
    from sd1 have "k1 \<in> fst ` set (own sd) \<or> k1 \<in> set inherited_keys" by (rule assign_Inr_key)
    with k1 s Cons.IH [OF rest] keys show ?thesis by auto
  qed
qed

section \<open>The analysis stage\<close>

lemma stage_analyses_Fulfilled:
  assumes "stage_analyses w g = (Fulfilled songs, st)"
  obtains r1 href r2 items furl sd0 r3 feats where
    "w 0 (JStr (playlist_url g)) = Responds r1" "tracklist_href r1 = Inr href"
    "w 1 href = Responds r2"
    "and_then (get_prop (data r2) ''items'') as_array = Inr items"
    "for_each add_track items (feature_url_prefix, empty_store) = (None, (furl, sd0))"
    "w 2 (JStr (butlast furl)) = Responds r3"
    "and_then (get_prop (data r3) ''audio_features'') as_array = Inr feats"
    "\<forall>k. map_of (own (songData st)) k =
       map_option (with_features (last_opt (filter (\<lambda>s. feature_key s = Inr k) feats)))
         (map_of (own sd0) k)"
    "\<forall>s \<in> set feats. \<exists>k. feature_key s = Inr k
       \<and> (k \<in> fst ` set (own sd0) \<or> k \<in> set inherited_keys)"
    "trace st =
       [Request (JStr (playlist_url g)) (Responds r1), Request href (Responds r2),
        Request (JStr (butlast furl)) (Responds r3)]
       @ map2 Request (map analysis_url_of feats) (issue w 3 (map analysis_url_of feats))"
    "promise_all (map2 (\<lambda>url out. catch_analysis (settle out url)) (map analysis_url_of feats)
        (issue w 3 (map analysis_url_of feats))) = Fulfilled songs"
proof -
  obtain p3 st3 where s3: "stage_features w g = (p3, st3)" by (cases "stage_features w g")
  from assms s3 obtain r3 where p3: "p3 = Fulfilled r3" and on: "on_features w r3 st3 = (Fulfilled songs, st)"
    by (cases p3) (auto simp: stage_analyses_def then_do_def)
  from s3 show thesis
  proof (cases rule: stage_features_cases)
    case (early e)
    with p3 show ?thesis by simp
  next
    case (asked r1 href r2 items furl)
    from asked(6) p3 have "settle (w 2 (JStr (butlast furl))) (JStr (butlast furl)) = Fulfilled r3"
      by simp
    then have r3: "w 2 (JStr (butlast furl)) = Responds r3" by (simp only: settle_Fulfilled)
    from on obtain feats where feats: "and_then (get_prop (data r3) ''audio_features'') as_array = Inr feats"
      by (cases "and_then (get_prop (data r3) ''audio_features'') as_array") (auto simp: on_features_def)
    obtain res st4 ps where loop: "for_each (request_analysis w) feats (st3, []) = (res, (st4, ps))"
      by (cases "for_each (request_analysis w) feats (st3, [])") auto
    from on feats loop have res: "res = None" and st4: "st4 = st" and ps: "promise_all ps = Fulfilled songs"
      by (cases res; simp add: on_features_def)+
    note eff = fan_out_effect [OF loop [unfolded res st4]]
    note present = fan_out_keys [OF loop [unfolded res st4]]
    show thesis
    proof (rule that [of r1 href r2 items furl "songData st3" r3 feats])
      show "\<forall>k. map_of (own (songData st)) k =
         map_option (with_features (last_opt (filter (\<lambda>s. feature_key s = Inr k) feats)))
           (map_of (own (songData st3)) k)"
        using eff by blast
      show "\<forall>s \<in> set feats. \<exists>k. feature_key s = Inr k
         \<and> (k \<in> fst ` set (own (songData st3)) \<or> k \<in> set inherited_keys)"
        using present .
      show "trace st =
         [Request (JStr (playlist_url g)) (Responds r1), Request href (Responds r2),
          Request (JStr (butlast furl)) (Responds r3)]
         @ map2 Request (map analysis_url_of feats) (issue w 3 (map analysis_url_of feats))"
        using eff asked(7) r3 by (simp add: numeral_3_eq_3)
      show "promise_all (map2 (\<lambda>url out. catch_analysis (settle out url)) (map analysis_url_of feats)
          (issue w 3 (map analysis_url_of feats))) = Fulfilled songs"
        using eff asked(7) ps by (simp add: numeral_3_eq_3)
    qed (use asked r3 feats in simp_all)
  qed
qed

lemma list_all_requests [simp]: "list_all is_request (map2 Request urls outs)"
  by (simp add: list_all_iff in_set_zip) (auto simp: in_set_zip)

section \<open>Failing attachments, and the retry pass\<close>


lemma responses_200_append [simp]:
  "responses_200 (xs @ ys) = responses_200 xs @ responses_200 ys"
  by (induction xs rule: responses_200.induct) simp_all

lemma retry_pass_eq:
  assumes "outs = issue w (length (answers (trace st))) (map url_of errors)"
  obtains retries where
    "promise_all (map2 (\<lambda>url out. catch_retry (settle out url)) (map url_of errors) outs) = Fulfilled retries"
    "resp_200 retries = responses_200 outs"
    "length (filter (\<lambda>s. status_of s \<noteq> Some 200) retries) = count_not_200 outs"
    "\<forall>s \<in> set retries. status_of s = Some 200 \<longrightarrow> (\<exists>r. s = Resp r)"
    "retry_pass w errors st =
       (case for_each merge_retry retries (songData st, 0) of
          (Some e, _) \<Rightarrow>
            (Rejects e, st\<lparr>trace := trace st @ sleep (backoff errors) @ map2 Request (map url_of errors) outs\<rparr>)
        | (None, (sd, i)) \<Rightarrow>
            (Resolves (own sd),
             st\<lparr>songData := sd,
                trace := trace st @ sleep (backoff errors) @ map2 Request (map url_of errors) outs
                           @ [LogResidual i]\<rparr>))"
proof -
  have len: "length (map url_of errors) = length outs" by (simp add: assms)
  from retries_settle [OF len] obtain retries where
    r: "promise_all (map2 (\<lambda>url out. catch_retry (settle out url)) (map url_of errors) outs) = Fulfilled retries"
    "resp_200 retries = responses_200 outs"
    "length (filter (\<lambda>s. status_of s \<noteq> Some 200) retries) = count_not_200 outs"
    "\<forall>s \<in> set retries. status_of s = Some 200 \<longrightarrow> (\<exists>r. s = Resp r)"
    by blast
  have no_req: "answers (sleep d) = []" for d by (simp add: sleep_def)
  have "retry_pass w errors st =
       (case for_each merge_retry retries (songData st, 0) of
          (Some e, _) \<Rightarrow>
            (Rejects e, st\<lparr>trace := trace st @ sleep (backoff errors) @ map2 Request (map url_of errors) outs\<rparr>)
        | (None, (sd, i)) \<Rightarrow>
            (Resolves (own sd),
             st\<lparr>songData := sd,
                trace := trace st @ sleep (backoff errors) @ map2 Request (map url_of errors) outs
                           @ [LogResidual i]\<rparr>))"
    using r(1) by (simp add: retry_pass_def retry_requests_effect no_req assms split: prod.splits option.splits)
  with r show thesis by (rule that)
qed

section \<open>What a resolved run has attached\<close>

lemma with_fields [simp]:
  "features (with_analysis a rec) = features rec"
  "analysis (with_features f rec) = analysis rec"
  "features (with_features f rec) = (case f of None \<Rightarrow> features rec | Some s \<Rightarrow> Some s)"
  "analysis (with_analysis a rec) = (case a of None \<Rightarrow> analysis rec | Some r \<Rightarrow> Some (data r))"
  by (simp_all add: with_features_def with_analysis_def split: option.splits)

lemma listed_fresh: "listed_as item k rec \<Longrightarrow> features rec = None \<and> analysis rec = None"
  by (auto simp: listed_as_def split: sum.splits)

lemma on_analyses_Resolves:
  assumes "on_analyses w songs st = (Fulfilled (Resolves sd), st')"
  obtains (direct) sd1 where
      "for_each sort_answer songs (songData st, []) = (None, (sd1, []))" "sd = own sd1"
      "trace st' = trace st"
  | (retried) sd1 errors retries sd2 i where
      "for_each sort_answer songs (songData st, []) = (None, (sd1, errors))"
      "resp_200 retries = responses_200 (issue w (length (answers (trace st))) (map url_of errors))"
      "for_each merge_retry retries (sd1, 0) = (None, (sd2, i))" "sd = own sd2"
      "trace st' = trace st @ sleep (backoff errors)
          @ map2 Request (map url_of errors) (issue w (length (answers (trace st))) (map url_of errors))
          @ [LogResidual i]"
proof -
  obtain res sd1 errors where sort: "for_each sort_answer songs (songData st, []) = (res, (sd1, errors))"
    by (cases "for_each sort_answer songs (songData st, [])") auto
  with assms have res: "res = None" by (cases res) (auto simp: on_analyses_def)
  show thesis
  proof (cases "errors = []")
    case True
    with assms sort res have "sd = own sd1" "trace st' = trace st"
      by (auto simp: on_analyses_def)
    with sort res True show thesis by (intro direct [of sd1]) simp_all
  next
    case False
    let ?st1 = "st\<lparr>songData := sd1\<rparr>"
    let ?outs = "issue w (length (answers (trace st))) (map url_of errors)"
    from assms sort res False have pass: "retry_pass w errors ?st1 = (Resolves sd, st')"
      by (auto simp: on_analyses_def split: prod.splits)
    have "?outs = issue w (length (answers (trace ?st1))) (map url_of errors)" by simp
    then obtain retries where
      r: "resp_200 retries = responses_200 ?outs"
      and eq: "retry_pass w errors ?st1 =
       (case for_each merge_retry retries (songData ?st1, 0) of
          (Some e, _) \<Rightarrow>
            (Rejects e, ?st1\<lparr>trace := trace ?st1 @ sleep (backoff errors) @ map2 Request (map url_of errors) ?outs\<rparr>)
        | (None, (sd, i)) \<Rightarrow>
            (Resolves (own sd),
             ?st1\<lparr>songData := sd,
                trace := trace ?st1 @ sleep (backoff errors) @ map2 Request (map url_of errors) ?outs
                           @ [LogResidual i]\<rparr>))"
      by (rule retry_pass_eq)
    obtain mres sd2 i where merge: "for_each merge_retry retries (sd1, 0) = (mres, (sd2, i))"
      by (cases "for_each merge_retry retries (sd1, 0)") auto
    from pass eq merge have "mres = None"
      by (cases mres) auto
    with pass eq merge have "sd = own sd2"
      "trace st' = trace st @ sleep (backoff errors) @ map2 Request (map url_of errors) ?outs @ [LogResidual i]"
      by auto
    with sort res r merge \<open>mres = None\<close> show thesis by (intro retried [of sd1 errors retries sd2 i]) simp_all
  qed
qed

lemma filter_zip_snd:
  "length xs = length ys \<Longrightarrow>
     map snd (filter (\<lambda>(x, y). P y) (zip xs ys)) = filter P ys"
  by (induction xs ys rule: list_induct2) simp_all

lemma length_failed_tracks:
  "length feats = length songs \<Longrightarrow>
     length (failed_tracks feats songs) = length (filter (\<lambda>s. status_of s \<noteq> Some 200) songs)"
  using filter_zip_snd [of feats songs "\<lambda>s. status_of s \<noteq> Some 200", THEN arg_cong, of length]
  by (simp add: failed_tracks_def)

text \<open>The feature objects of a run are as many as the answers of the first pass.\<close>

lemma first_pass_feature_objects:
  assumes "stage_analyses w g = (Fulfilled songs, st)"
  shows "length (feature_objects (trace st @ later)) = length songs"
proof -
  from assms obtain r1 href r2 furl r3 feats where
    feats: "and_then (get_prop (data r3) ''audio_features'') as_array = Inr feats"
    and tr4: "trace st =
       [Request (JStr (playlist_url g)) (Responds r1), Request href (Responds r2),
        Request (JStr (butlast furl)) (Responds r3)]
       @ map2 Request (map analysis_url_of feats) (issue w 3 (map analysis_url_of feats))"
    and all: "promise_all (map2 (\<lambda>url out. catch_analysis (settle out url)) (map analysis_url_of feats)
        (issue w 3 (map analysis_url_of feats))) = Fulfilled songs"
    by (rule stage_analyses_Fulfilled)
  have "feature_objects (trace st @ later) = feats"
    using feats by (simp add: feature_objects_def tr4)
  moreover have "length songs = length feats"
    using analyses_settle [OF _ all] by simp
  ultimately show ?thesis by simp
qed

text \<open>
  What a resolved run has attached: each record holds the last feature object, and the
  payload of the last response of status 200, that name its key; and every feature object
  and every such response names a record or a property that \<^verbatim>\<open>songData\<close> inherits.
\<close>

lemma resolved_run:
  assumes "getTop100AudioData w genre = (Resolves sd, tr)"
  shows "(\<forall>k rec. map_of sd k = Some rec \<longrightarrow>
            features rec = last_opt (filter (\<lambda>song. feature_key song = Inr k) (feature_objects tr))
            \<and> analysis rec =
                map_option data (last_opt (filter (\<lambda>r. path_key r = Inr k) (analyses_200 tr))))
         \<and> (\<forall>song \<in> set (feature_objects tr). \<exists>k. feature_key song = Inr k
               \<and> (k \<in> fst ` set sd \<or> k \<in> set inherited_keys))
         \<and> (\<forall>r \<in> set (analyses_200 tr). \<exists>k. path_key r = Inr k
               \<and> (k \<in> fst ` set sd \<or> k \<in> set inherited_keys))"
proof -
  from assms(1) obtain g where g: "genre = JStr g"
    by (cases genre) (auto simp: getTop100AudioData_def)
  obtain p st where s4: "stage_analyses w g = (p, st)" by (cases "stage_analyses w g")
  from assms(1) g s4 obtain songs where p: "p = Fulfilled songs"
    by (cases p) (auto simp: getTop100AudioData_def then_do_def finish_def)
  obtain q st' where on: "on_analyses w songs st = (q, st')" by (cases "on_analyses w songs st")
  from assms(1) g s4 p on have q: "q = Fulfilled (Resolves sd)" and tr: "tr = trace st'"
    by (cases q; auto simp: getTop100AudioData_def then_do_def finish_def)+
  from s4 [unfolded p] obtain r1 href r2 items furl sd0 r3 feats where
    listing: "for_each add_track items (feature_url_prefix, empty_store) = (None, (furl, sd0))"
    and feats: "and_then (get_prop (data r3) ''audio_features'') as_array = Inr feats"
    and fmap: "\<forall>k. map_of (own (songData st)) k =
       map_option (with_features (last_opt (filter (\<lambda>s. feature_key s = Inr k) feats)))
         (map_of (own sd0) k)"
    and fkeys: "\<forall>s \<in> set feats. \<exists>k. feature_key s = Inr k
       \<and> (k \<in> fst ` set (own sd0) \<or> k \<in> set inherited_keys)"
    and tr4: "trace st =
       [Request (JStr (playlist_url g)) (Responds r1), Request href (Responds r2),
        Request (JStr (butlast furl)) (Responds r3)]
       @ map2 Request (map analysis_url_of feats) (issue w 3 (map analysis_url_of feats))"
    and all: "promise_all (map2 (\<lambda>url out. catch_analysis (settle out url)) (map analysis_url_of feats)
        (issue w 3 (map analysis_url_of feats))) = Fulfilled songs"
    by (rule stage_analyses_Fulfilled)
  let ?outs = "issue w 3 (map analysis_url_of feats)"
  have s200: "resp_200 songs = responses_200 ?outs"
    using analyses_settle [OF _ all] by simp
  have fresh: "features rec0 = None \<and> analysis rec0 = None" if "map_of (own sd0) k = Some rec0" for k rec0
  proof -
    from that have "(k, rec0) \<in> set (own sd0)" by (rule map_of_SomeD)
    with listing_records(2) [OF listing] show ?thesis
      by (auto simp: empty_store_def dest: listed_fresh)
  qed
  have fo: "feature_objects (trace st @ more) = feats" for more
    using feats by (simp add: feature_objects_def tr4)
  have keys0: "fst ` set (own (songData st)) = fst ` set (own sd0)"
    using fmap by (rule keys_of_maps)
  from on [unfolded q] show ?thesis
  proof (cases rule: on_analyses_Resolves)
    case (direct sd1)
    note eff = sort_effect [OF direct(1)]
    have a200: "analyses_200 tr = resp_200 songs"
      by (simp add: analyses_200_def tr direct(3) tr4 s200)
    have fobj: "feature_objects tr = feats"
      using fo [of "[]"] by (simp add: tr direct(3))
    have "features rec = last_opt (filter (\<lambda>song. feature_key song = Inr k) (feature_objects tr))
            \<and> analysis rec =
                map_option data (last_opt (filter (\<lambda>r. path_key r = Inr k) (analyses_200 tr)))"
      if "map_of sd k = Some rec" for k rec
    proof -
      from eff that fmap obtain rec0 where rec0: "map_of (own sd0) k = Some rec0"
        and rec: "rec = with_analysis (last_opt (filter (\<lambda>r. path_key r = Inr k) (resp_200 songs)))
                  (with_features (last_opt (filter (\<lambda>s. feature_key s = Inr k) feats)) rec0)"
        by (auto simp: direct(2) map_option_case split: option.splits)
      show ?thesis
        using fresh [OF rec0] by (simp add: rec a200 fobj split: option.splits)
    qed
    moreover have "\<forall>song \<in> set (feature_objects tr). \<exists>k. feature_key song = Inr k
        \<and> (k \<in> fst ` set sd \<or> k \<in> set inherited_keys)"
      using fkeys eff keys0 by (simp add: fobj direct(2))
    moreover have "\<forall>r \<in> set (analyses_200 tr). \<exists>k. path_key r = Inr k
        \<and> (k \<in> fst ` set sd \<or> k \<in> set inherited_keys)"
      using sort_keys [OF direct(1)] eff by (simp add: a200 direct(2))
    ultimately show ?thesis by blast
  next
    case (retried sd1 errors retries sd2 i)
    note eff1 = sort_effect [OF retried(1)]
    note eff2 = merge_effect [OF retried(3)]
    have a200: "analyses_200 tr = resp_200 songs @ resp_200 retries"
      by (simp add: analyses_200_def tr retried(5) retried(2) tr4 s200 sleep_def)
    have fobj: "feature_objects tr = feats"
      using fo by (simp add: tr retried(5))
    have "features rec = last_opt (filter (\<lambda>song. feature_key song = Inr k) (feature_objects tr))
            \<and> analysis rec =
                map_option data (last_opt (filter (\<lambda>r. path_key r = Inr k) (analyses_200 tr)))"
      if "map_of sd k = Some rec" for k rec
    proof -
      from eff2 eff1 that fmap obtain rec0 where rec0: "map_of (own sd0) k = Some rec0"
        and rec: "rec = with_analysis (last_opt (filter (\<lambda>r. path_key r = Inr k) (resp_200 retries)))
                  (with_analysis (last_opt (filter (\<lambda>r. path_key r = Inr k) (resp_200 songs)))
                    (with_features (last_opt (filter (\<lambda>s. feature_key s = Inr k) feats)) rec0))"
        by (auto simp: retried(4) map_option_case split: option.splits)
      show ?thesis
        using fresh [OF rec0] by (simp add: rec a200 fobj last_opt_append split: option.splits)
    qed
    moreover have "\<forall>song \<in> set (feature_objects tr). \<exists>k. feature_key song = Inr k
        \<and> (k \<in> fst ` set sd \<or> k \<in> set inherited_keys)"
      using fkeys eff1 eff2 keys0 by (simp add: fobj retried(4))
    moreover have "\<forall>r \<in> set (analyses_200 tr). \<exists>k. path_key r = Inr k
        \<and> (k \<in> fst ` set sd \<or> k \<in> set inherited_keys)"
      using sort_keys [OF retried(1)] merge_keys [OF retried(3)] eff1 eff2
      by (auto simp: a200 retried(4))
    ultimately show ?thesis by blast
  qed
qed




section \<open>The first request, and a long listing\<close>

lemma run_starts_with_playlists:
  "\<exists>tr. snd (getTop100AudioData w (JStr g)) =
      Request (JStr (playlist_url g)) (w 0 (JStr (playlist_url g))) # tr"
proof -
  let ?first = "Request (JStr (playlist_url g)) (w 0 (JStr (playlist_url g)))"
  obtain p1 st1 where s1: "stage_playlists w g = (p1, st1)" by (cases "stage_playlists w g")
  obtain p2 st2 where s2: "stage_tracklist w g = (p2, st2)" by (cases "stage_tracklist w g")
  obtain p3 st3 where s3: "stage_features w g = (p3, st3)" by (cases "stage_features w g")
  obtain p4 st4 where s4: "stage_analyses w g = (p4, st4)" by (cases "stage_analyses w g")
  obtain q st5 where s5: "then_do (p4, st4) (on_analyses w) = (q, st5)"
    by (cases "then_do (p4, st4) (on_analyses w)")
  from s1 have t1: "trace st1 = [?first]" by (auto simp: stage_playlists_eq)
  have "extends st1 st2"
    using s2 [unfolded stage_tracklist_def s1] by (rule then_do_extends) (rule on_playlists_extends)
  moreover have "extends st2 st3"
    using s3 [unfolded stage_features_def s2] by (rule then_do_extends) (rule on_tracklist_extends)
  moreover have "extends st3 st4"
    using s4 [unfolded stage_analyses_def s3] by (rule then_do_extends) (rule on_features_extends)
  moreover have "extends st4 st5"
    using s5 by (rule then_do_extends) (rule on_analyses_extends)
  ultimately have "extends st1 st5" by (blast intro: extends_trans)
  with t1 obtain tr where "trace st5 = ?first # tr" by (auto simp: extends_def)
  then have "\<exists>tr. snd (finish (q, st5)) = ?first # tr"
    by (cases q) (auto simp: finish_def)
  with s4 s5 show ?thesis by (simp add: getTop100AudioData_def)
qed

lemma update_fresh: "k \<notin> fst ` set al \<Longrightarrow> AList.update k v al = al @ [(k, v)]"
  by (induction al) auto

lemma add_track_item:
  "add_track (track_item (JStr k) n p) (furl, sd) =
     Inr (furl @ k @ '','',
          put sd k \<lparr>name = n, popularity = p, features = None, analysis = None\<rparr>)"
  by (simp add: add_track_def track_item_def key_of_def)

lemma listing_of_fresh_tracks:
  assumes "''__proto__'' \<notin> set ks" and "distinct ks" and "set ks \<inter> fst ` set (own sd) = {}"
  shows "\<exists>furl' sd'. for_each add_track (map (\<lambda>k. track_item (JStr k) n p) ks) (furl, sd) =
           (None, (furl', sd'))
         \<and> own sd' =
             own sd @ map (\<lambda>k. (k, \<lparr>name = n, popularity = p, features = None, analysis = None\<rparr>)) ks"
  using assms
proof (induction ks arbitrary: furl sd)
  case Nil
  then show ?case by simp
next
  case (Cons k ks)
  let ?rec = "\<lparr>name = n, popularity = p, features = None, analysis = None\<rparr>"
  from Cons.prems have k: "k \<noteq> ''__proto__''" "k \<notin> fst ` set (own sd)" by auto
  then have own1: "own (put sd k ?rec) = own sd @ [(k, ?rec)]"
    by (simp add: own_put update_fresh)
  from Cons.prems have "''__proto__'' \<notin> set ks" "distinct ks"
      "set ks \<inter> fst ` set (own (put sd k ?rec)) = {}"
    by (auto simp: own1)
  from Cons.IH [OF this, of "furl @ k @ '',''"] own1 show ?case
    by (simp add: add_track_item)
qed

lemma long_ids_facts:
  "''__proto__'' \<notin> set long_ids" "''null'' \<notin> set long_ids" "distinct long_ids" "length long_ids = 100"
  by (auto simp: long_ids_def distinct_map inj_on_def)

section \<open>The claims\<close>

text \<open>
  Claim C1 says that a failing analysis request, a network-level failure with no response
  included, never makes the operation reject. On \<open>upstream_net\<close> the first analysis request
  gets no response: Axios rejects with an error whose \<^verbatim>\<open>response\<close> is undefined, the
  \<^verbatim>\<open>catch\<close> of line 125 raises a \<^verbatim>\<open>TypeError\<close> on \<^verbatim>\<open>err.response.status\<close>, and the whole
  operation rejects with it.
\<close>

theorem C1_network_failure_rejects:
  "upstream_net 3 (analysis_url ''b2'') = NoResponse
   \<and> catch_analysis (settle NoResponse (analysis_url ''b2'')) = Rejected TypeError
   \<and> fst (getTop100AudioData upstream_net (JStr ''jazz'')) = Rejects TypeError"
  by code_simp

text \<open>
  Claim C2, as the code has it: features and analyses are attached by id, never by
  position. In every run that resolves, the \<^verbatim>\<open>features\<close> of the record under key \<open>k\<close> is
  the last feature object of the features response whose \<^verbatim>\<open>id\<close> is \<open>k\<close> (absent when
  there is none), and its \<^verbatim>\<open>analysis\<close> is the payload of the last response of status 200,
  of the first pass or of the retry, whose request path has \<open>k\<close> as fourth segment (absent
  when there is none). A feature object or such a response whose id is the key of no
  record names a property that \<^verbatim>\<open>songData\<close> inherits, and its payload is attached to no
  record.
\<close>

theorem C2_attachments_follow_ids:
  assumes "getTop100AudioData w genre = (Resolves sd, tr)"
  shows "(\<forall>k rec. map_of sd k = Some rec \<longrightarrow>
            features rec = last_opt (filter (\<lambda>song. feature_key song = Inr k) (feature_objects tr))
            \<and> analysis rec =
                map_option data (last_opt (filter (\<lambda>r. path_key r = Inr k) (analyses_200 tr))))
         \<and> (\<forall>song \<in> set (feature_objects tr). \<exists>k. feature_key song = Inr k
               \<and> (k \<in> fst ` set sd \<or> k \<in> set inherited_keys))
         \<and> (\<forall>r \<in> set (analyses_200 tr). \<exists>k. path_key r = Inr k
               \<and> (k \<in> fst ` set sd \<or> k \<in> set inherited_keys))"
  using assms by (rule resolved_run)

text \<open>
  The run on \<open>upstream_retry\<close>: the feature object of \<^verbatim>\<open>b2\<close> comes first in the response
  though the track is listed second, and its analysis comes with the retry.
\<close>

theorem C2_attachments_witness:
  "fst (getTop100AudioData upstream_retry (JStr ''jazz'')) = Resolves retry_result
   \<and> last_opt (filter (\<lambda>song. feature_key song = Inr ''b2'')
         (feature_objects (snd (getTop100AudioData upstream_retry (JStr ''jazz''))))) =
       Some (feature_object ''b2'')
   \<and> map_option data (last_opt (filter (\<lambda>r. path_key r = Inr ''b2'')
         (analyses_200 (snd (getTop100AudioData upstream_retry (JStr ''jazz'')))))) =
       Some (JStr ''analysis of b2'')"
proof -
  let ?rec = "\<lparr>name = JStr ''B'', popularity = JNumber (Num 60),
                features = Some (feature_object ''b2''),
                analysis = Some (JStr ''analysis of b2'')\<rparr>"
  have run: "getTop100AudioData upstream_retry (JStr ''jazz'') =
      (Resolves retry_result, snd (getTop100AudioData upstream_retry (JStr ''jazz'')))"
    by code_simp
  have rec: "map_of retry_result ''b2'' = Some ?rec"
    by (simp add: retry_result_def)
  from C2_attachments_follow_ids [OF run] rec
  have "features ?rec =
          last_opt (filter (\<lambda>song. feature_key song = Inr ''b2'')
            (feature_objects (snd (getTop100AudioData upstream_retry (JStr ''jazz'')))))
        \<and> analysis ?rec =
          map_option data (last_opt (filter (\<lambda>r. path_key r = Inr ''b2'')
            (analyses_200 (snd (getTop100AudioData upstream_retry (JStr ''jazz''))))))"
    by blast
  moreover from run have "fst (getTop100AudioData upstream_retry (JStr ''jazz'')) = Resolves retry_result"
    by (simp add: prod_eq_iff)
  ultimately show ?thesis by simp
qed

text \<open>
  A feature object fetched with success whose payload reaches no record: on
  \<open>upstream_unlisted ''toString''\<close> the second feature object has the id \<^verbatim>\<open>toString\<close>, which
  the listing did not contain. \<^verbatim>\<open>songData['toString']\<close> is the function that \<^verbatim>\<open>songData\<close>
  inherits from \<^verbatim>\<open>Object.prototype\<close>; the feature object, and later the analysis of the
  response whose path ends in \<^verbatim>\<open>toString\<close>, become properties of that function, and the
  run resolves with the one record of the listing.
\<close>

theorem C2_inherited_id_counterexample:
  "fst (getTop100AudioData (upstream_unlisted ''toString'') (JStr ''jazz'')) = Resolves ok_result
   \<and> feature_objects (snd (getTop100AudioData (upstream_unlisted ''toString'') (JStr ''jazz''))) =
       [feature_object ''a1'', feature_object ''toString'']
   \<and> feature_key (feature_object ''toString'') = Inr ''toString''
   \<and> analyses_200 (snd (getTop100AudioData (upstream_unlisted ''toString'') (JStr ''jazz''))) =
       [analysis_resp ''a1'', analysis_resp ''toString'']
   \<and> path_key (analysis_resp ''toString'') = Inr ''toString''
   \<and> map_of ok_result ''toString'' = None"
  by code_simp




text \<open>
  Claim C4, as the code has it. The check of line 83 is \<^verbatim>\<open>typeof genre !== 'string'\<close>: a
  genre that is no string makes the call throw before any request; every string, the empty
  one included, is sent upstream in the playlists request. When the playlists response has
  an empty \<^verbatim>\<open>items\<close>, reading \<^verbatim>\<open>items[0].tracks\<close> raises a \<^verbatim>\<open>TypeError\<close>, with which the
  operation rejects after that single request.
\<close>

theorem C4_argument_check:
  "((\<forall>g. genre \<noteq> JStr g) \<longrightarrow> getTop100AudioData w genre = (Throws GenreNotString, []))
   \<and> (\<exists>tr. snd (getTop100AudioData w (JStr g)) =
          Request (JStr (playlist_url g)) (w 0 (JStr (playlist_url g))) # tr)
   \<and> (w 0 (JStr (playlist_url g)) = Responds r \<and> 200 \<le> status r \<and> status r < 300
        \<and> and_then (get_prop (data r) ''playlists'') (\<lambda>p. get_prop p ''items'') = Inr (JArr [])
      \<longrightarrow> getTop100AudioData w (JStr g) =
            (Rejects TypeError, [Request (JStr (playlist_url g)) (Responds r), LogFatal TypeError]))"
proof (intro conjI impI)
  assume "\<forall>g. genre \<noteq> JStr g"
  then show "getTop100AudioData w genre = (Throws GenreNotString, [])"
    by (cases genre) (simp_all add: getTop100AudioData_def)
next
  show "\<exists>tr. snd (getTop100AudioData w (JStr g)) =
          Request (JStr (playlist_url g)) (w 0 (JStr (playlist_url g))) # tr"
    by (rule run_starts_with_playlists)
next
  assume a: "w 0 (JStr (playlist_url g)) = Responds r \<and> 200 \<le> status r \<and> status r < 300
        \<and> and_then (get_prop (data r) ''playlists'') (\<lambda>p. get_prop p ''items'') = Inr (JArr [])"
  then have "tracklist_href r = Inl TypeError"
    by (auto simp: tracklist_href_def and_then_eq_Inr)
  with a have "stage_tracklist w g =
      (Rejected TypeError, \<lparr>songData = empty_store, trace = [Request (JStr (playlist_url g)) (Responds r)]\<rparr>)"
    by (simp add: stage_tracklist_def stage_playlists_eq then_do_def settle_Responds on_playlists_def)
  then show "getTop100AudioData w (JStr g) =
            (Rejects TypeError, [Request (JStr (playlist_url g)) (Responds r), LogFatal TypeError])"
    by (simp add: getTop100AudioData_def stage_analyses_def stage_features_def then_do_def finish_def)
qed

theorem C4_argument_check_witness:
  "getTop100AudioData upstream_no_playlist JNull = (Throws GenreNotString, [])
   \<and> getTop100AudioData upstream_no_playlist (JStr ''jazz'') =
       (Rejects TypeError,
        [Request (JStr ''https://api.spotify.com/v1/browse/categories/jazz/playlists'')
           (ok_response (playlists_doc []) ''/v1/browse/categories/jazz/playlists''),
         LogFatal TypeError])"
  using C4_argument_check [where genre = JNull and w = upstream_no_playlist and g = "''jazz''"
      and r = "ok_resp (playlists_doc []) ''/v1/browse/categories/jazz/playlists''"]
  by (simp add: upstream_no_playlist_def ok_response_def ok_resp_def playlists_doc_def playlist_url_def)

text \<open>
  The empty genre is not refused: the run on \<open>upstream_ok\<close> requests the playlists of the
  category with the empty name and resolves.
\<close>

theorem C4_empty_genre_counterexample:
  "fst (getTop100AudioData upstream_ok (JStr '''')) = Resolves ok_result
   \<and> hd (snd (getTop100AudioData upstream_ok (JStr ''''))) =
       Request (JStr ''https://api.spotify.com/v1/browse/categories//playlists'')
         (ok_response one_playlist ''/v1/browse/categories/jazz/playlists'')"
  by code_simp

text \<open>
  Claim C5 says that the retries are issued only after the computed delay has elapsed.
  On \<open>upstream_retry\<close> the delay is 7000 milliseconds; what follows the six requests of
  the run is: the promise of \<^verbatim>\<open>sleep\<close> is resolved, \<^verbatim>\<open>setTimeout\<close> is called with
  \<^verbatim>\<open>undefined\<close> for a callback, and the two retries are issued. No timer stands between the
  failures and their retry.
\<close>

theorem C5_retry_without_delay:
  "drop 6 (snd (getTop100AudioData upstream_retry (JStr ''jazz''))) =
     [SleepResolved, SetTimeout JUndefined (Num 7000),
      Request (analysis_url ''b2'') (Responds (analysis_resp ''b2'')),
      Request (analysis_url ''c3'') NoResponse,
      LogResidual 1]"
  by code_simp

text \<open>
  Claim C6, as the code has it. When the first pass leaves failures and every retry that
  is answered with status 200 carries the request path of a record, the run retries each
  failed URL once and resolves, and the count it logs is the number of retries that were
  not answered with status 200 (no response at all included). \<open>errors\<close> holds what the
  failed requests of the first pass settled to, in the order of their feature objects
  (\<open>failed_tracks\<close>), and the \<open>i\<close>-th retry asks again for the \<open>i\<close>-th of them. The record of
  a track whose retry was not answered with 200 has no \<^verbatim>\<open>analysis\<close>, unless a response of
  status 200 of the run, of the first pass or of the retry, names the track.
\<close>

theorem C6_residual_count:
  assumes "stage_analyses w genre = (Fulfilled songs, st)"
      and "for_each sort_answer songs (songData st, []) = (None, (sd, errors))"
      and "errors \<noteq> []"
      and "outs = issue w (length (answers (trace st))) (map url_of errors)"
      and "\<forall>r \<in> set (responses_200 outs). \<exists>k. path_key r = Inr k \<and> k \<in> fst ` set (own sd)"
  shows "\<exists>sd' tr. getTop100AudioData w (JStr genre) = (Resolves sd', tr)
          \<and> tr = trace st @ sleep (backoff errors) @ map2 Request (map url_of errors) outs
                   @ [LogResidual (count_not_200 outs)]
          \<and> errors =
              map snd (filter (\<lambda>(song, s). status_of s \<noteq> Some 200) (zip (feature_objects tr) songs))
          \<and> (\<forall>i < length errors. \<not> answered_200 (outs ! i) \<longrightarrow>
                (\<forall>k rec. feature_key (failed_tracks (feature_objects tr) songs ! i) = Inr k \<longrightarrow>
                   map_of sd' k = Some rec \<longrightarrow>
                   (\<forall>r \<in> set (analyses_200 tr). path_key r \<noteq> Inr k) \<longrightarrow>
                   analysis rec = None))"
proof -
  let ?st1 = "st\<lparr>songData := sd\<rparr>"
  let ?tr = "trace st @ sleep (backoff errors) @ map2 Request (map url_of errors) outs
               @ [LogResidual (count_not_200 outs)]"
  have outs: "outs = issue w (length (answers (trace ?st1))) (map url_of errors)"
    using assms(4) by simp
  from outs obtain retries where
    r: "resp_200 retries = responses_200 outs"
       "length (filter (\<lambda>s. status_of s \<noteq> Some 200) retries) = count_not_200 outs"
       "\<forall>s \<in> set retries. status_of s = Some 200 \<longrightarrow> (\<exists>r. s = Resp r)"
    and pass: "retry_pass w errors ?st1 =
       (case for_each merge_retry retries (songData ?st1, 0) of
          (Some e, _) \<Rightarrow>
            (Rejects e, ?st1\<lparr>trace := trace ?st1 @ sleep (backoff errors) @ map2 Request (map url_of errors) outs\<rparr>)
        | (None, (sd, i)) \<Rightarrow>
            (Resolves (own sd),
             ?st1\<lparr>songData := sd,
                trace := trace ?st1 @ sleep (backoff errors) @ map2 Request (map url_of errors) outs
                           @ [LogResidual i]\<rparr>))"
    by (rule retry_pass_eq)
  from assms(5) r(1)
  have "\<forall>r \<in> set (resp_200 retries). \<exists>k. path_key r = Inr k \<and> k \<in> fst ` set (own sd)"
    by simp
  from merge_succeeds [OF this r(3)] obtain sd2 i' where
    merge: "for_each merge_retry retries (sd, 0) = (None, (sd2, i'))"
    by blast
  from merge_effect [OF merge] r(2) have i': "i' = count_not_200 outs" by simp
  from pass merge i' have "retry_pass w errors ?st1 =
      (Resolves (own sd2), ?st1\<lparr>songData := sd2, trace := ?tr\<rparr>)"
    by simp
  with assms(2,3) have "on_analyses w songs st =
      (Fulfilled (Resolves (own sd2)), ?st1\<lparr>songData := sd2, trace := ?tr\<rparr>)"
    by (simp add: on_analyses_def)
  with assms(1) have run: "getTop100AudioData w (JStr genre) = (Resolves (own sd2), ?tr)"
    by (simp add: getTop100AudioData_def then_do_def finish_def)
  have "length (feature_objects ?tr) = length songs"
    using assms(1) by (rule first_pass_feature_objects)
  moreover from sort_effect [OF assms(2)]
  have "errors = filter (\<lambda>s. status_of s \<noteq> Some 200) songs" by simp
  ultimately have errors: "errors =
      map snd (filter (\<lambda>(song, s). status_of s \<noteq> Some 200) (zip (feature_objects ?tr) songs))"
    by (simp add: filter_zip_snd)
  have "analysis rec = None"
    if "map_of (own sd2) k = Some rec" "\<forall>r \<in> set (analyses_200 ?tr). path_key r \<noteq> Inr k" for k rec
  proof -
    from that(2) have "filter (\<lambda>r. path_key r = Inr k) (analyses_200 ?tr) = []"
      by (simp add: filter_empty_conv)
    with resolved_run [OF run] that(1) show ?thesis by simp
  qed
  with run errors show ?thesis by blast
qed

text \<open>
  The run on \<open>upstream_retry\<close>: two retries, of which the second gets no response; the
  count is 1, the second failed track is \<^verbatim>\<open>c3\<close>, and its record has no analysis.
\<close>

theorem C6_residual_count_witness:
  "fst (getTop100AudioData upstream_retry (JStr ''jazz'')) = Resolves retry_result
   \<and> last (snd (getTop100AudioData upstream_retry (JStr ''jazz''))) = LogResidual 1
   \<and> failed_tracks (feature_objects (snd (getTop100AudioData upstream_retry (JStr ''jazz''))))
       first_pass_answers = [feature_object ''b2'', feature_object ''c3'']
   \<and> map_option analysis (map_of retry_result ''c3'') = Some None"
proof -
  let ?outs = "[Responds (analysis_resp ''b2''), NoResponse]"
  let ?rec = "\<lparr>name = JStr ''C'', popularity = JNumber (Num 70),
                features = Some (feature_object ''c3''), analysis = None\<rparr>"
  let ?run = "getTop100AudioData upstream_retry (JStr ''jazz'')"
  have 1: "stage_analyses upstream_retry ''jazz'' =
      (Fulfilled first_pass_answers, snd (stage_analyses upstream_retry ''jazz''))"
    by code_simp
  have 2: "for_each sort_answer first_pass_answers
      (songData (snd (stage_analyses upstream_retry ''jazz'')), []) =
      (None, (records_only first_pass_result, first_pass_failures))"
    by code_simp
  have 3: "first_pass_failures \<noteq> []" by (simp add: first_pass_failures_def)
  have 4: "?outs =
      issue upstream_retry (length (answers (trace (snd (stage_analyses upstream_retry ''jazz'')))))
        (map url_of first_pass_failures)"
    by code_simp
  have key: "path_key (analysis_resp ''b2'') = Inr ''b2''"
    by (simp add: analysis_resp_def ok_resp_def path_key_def path_id_def segment3_def key_of_def)
  have r200: "responses_200 ?outs = [analysis_resp ''b2'']"
    by (simp add: analysis_resp_def ok_resp_def)
  have 5: "\<forall>r \<in> set (responses_200 ?outs).
      \<exists>k. path_key r = Inr k \<and> k \<in> fst ` set (own (records_only first_pass_result))"
    by (simp add: r200 key first_pass_result_def records_only_def)
  have n: "count_not_200 ?outs = 1"
    by (simp add: count_not_200_def analysis_resp_def ok_resp_def)
  have res: "fst ?run = Resolves retry_result" by code_simp
  have failed: "failed_tracks (feature_objects (snd ?run)) first_pass_answers =
      [feature_object ''b2'', feature_object ''c3'']"
    by code_simp
  have named: "map path_key (analyses_200 (snd ?run)) = [Inr ''a1'', Inr ''b2'']"
    by code_simp
  from C6_residual_count [OF 1 2 3 4 5] obtain sd' tr where
    run: "?run = (Resolves sd', tr)"
    and tr: "tr = trace (snd (stage_analyses upstream_retry ''jazz'')) @ sleep (backoff first_pass_failures)
               @ map2 Request (map url_of first_pass_failures) ?outs
               @ [LogResidual (count_not_200 ?outs)]"
    and tie: "\<forall>i < length first_pass_failures. \<not> answered_200 (?outs ! i) \<longrightarrow>
                (\<forall>k rec. feature_key (failed_tracks (feature_objects tr) first_pass_answers ! i) = Inr k \<longrightarrow>
                   map_of sd' k = Some rec \<longrightarrow>
                   (\<forall>r \<in> set (analyses_200 tr). path_key r \<noteq> Inr k) \<longrightarrow>
                   analysis rec = None)"
    by blast
  from run res have sd': "sd' = retry_result" and snd_run: "snd ?run = tr" by simp_all
  have c3: "map_of retry_result ''c3'' = Some ?rec" by (simp add: retry_result_def)
  have fk: "feature_key (feature_object ''c3'') = Inr ''c3''"
    by (simp add: feature_key_def feature_object_def key_of_def)
  have unnamed: "\<forall>r \<in> set (analyses_200 tr). path_key r \<noteq> Inr ''c3''"
  proof
    fix r
    assume "r \<in> set (analyses_200 tr)"
    then have "path_key r \<in> set (map path_key (analyses_200 (snd ?run)))"
      by (simp add: snd_run)
    then show "path_key r \<noteq> Inr ''c3''" by (auto simp: named)
  qed
  from tie [rule_format, of 1 "''c3''" ?rec] failed fk c3 unnamed
  have "analysis ?rec = None"
    by (simp add: snd_run [symmetric] sd' first_pass_failures_def)
  moreover from run tr have "last (snd ?run) = LogResidual 1" by (simp add: n)
  ultimately show ?thesis using res failed c3 by simp
qed

text \<open>
  Two runs against the claim. On \<open>upstream_duplicate\<close> the features response holds the
  track \<^verbatim>\<open>a1\<close> twice; the analysis request of the first is answered 200, that of the
  second fails and so does its retry: the count is 1, and the track has its analysis all
  the same. On \<open>upstream_short_path\<close> the retry is answered 200 by a response whose path
  has no fourth segment: \<^verbatim>\<open>songData[undefined]\<close> is undefined, line 173 raises a
  \<^verbatim>\<open>TypeError\<close>, and the operation rejects.
\<close>

theorem C6_residual_counterexample:
  "fst (getTop100AudioData upstream_duplicate (JStr ''jazz'')) = Resolves ok_result
   \<and> drop 5 (snd (getTop100AudioData upstream_duplicate (JStr ''jazz''))) =
       [SleepResolved, SetTimeout JUndefined (Num 0),
        Request (analysis_url ''a1'') NoResponse, LogResidual 1]
   \<and> map_option analysis (map_of ok_result ''a1'') = Some (Some (JStr ''analysis of a1''))
   \<and> fst (getTop100AudioData upstream_short_path (JStr ''jazz'')) = Rejects TypeError
   \<and> drop 3 (answers (snd (getTop100AudioData upstream_short_path (JStr ''jazz'')))) =
       [error_response 500 [], ok_response (JStr ''analysis of a1'') ''/a1'']"
  by code_simp

text \<open>
  Claim C7: when the third request of a run, the batched one for the features, is answered
  with a status outside 2xx, the operation rejects with the error of that request, and the
  trace ends there but for the log line: no analysis request is issued.
\<close>

theorem C7_features_failure_aborts:
  assumes "stage_features w genre = (p, st)"
      and "trace st = tr @ [Request url (Responds r)]"
      and "length (answers tr) = 2"
      and "\<not> (200 \<le> status r \<and> status r < 300)"
  shows "getTop100AudioData w (JStr genre) =
           (Rejects (AxiosError (Some r) url), trace st @ [LogFatal (AxiosError (Some r) url)])
         \<and> length (answers (snd (getTop100AudioData w (JStr genre)))) = 3"
proof -
  from assms(1) have "p = Rejected (AxiosError (Some r) url)"
  proof (cases rule: stage_features_cases)
    case (early e)
    with assms(2,3) show ?thesis by simp
  next
    case (asked r1 href r2 items furl)
    from asked(7) assms(2) have "url = JStr (butlast furl)" "w 2 (JStr (butlast furl)) = Responds r"
      by auto
    with asked(6) assms(4) show ?thesis by (simp add: settle_Responds)
  qed
  with assms(1) have "stage_analyses w genre = (Rejected (AxiosError (Some r) url), st)"
    by (simp add: stage_analyses_def then_do_def)
  then have "getTop100AudioData w (JStr genre) =
           (Rejects (AxiosError (Some r) url), trace st @ [LogFatal (AxiosError (Some r) url)])"
    by (simp add: getTop100AudioData_def then_do_def finish_def)
  with assms(2,3) show ?thesis by simp
qed

text \<open>The run on \<open>upstream_features_down\<close>, whose features request is answered 503.\<close>

theorem C7_features_failure_witness:
  "fst (getTop100AudioData upstream_features_down (JStr ''jazz'')) =
     Rejects (AxiosError (Some (error_resp 503 []))
       (JStr ''https://api.spotify.com/v1/audio-features/?ids=a1,b2,c3''))
   \<and> length (answers (snd (getTop100AudioData upstream_features_down (JStr ''jazz'')))) = 3"
proof -
  have 1: "stage_features upstream_features_down ''jazz'' =
      (fst (stage_features upstream_features_down ''jazz''),
       snd (stage_features upstream_features_down ''jazz''))"
    by simp
  have 2: "trace (snd (stage_features upstream_features_down ''jazz'')) =
      butlast (trace (snd (stage_features upstream_features_down ''jazz'')))
      @ [Request (JStr ''https://api.spotify.com/v1/audio-features/?ids=a1,b2,c3'')
           (Responds (error_resp 503 []))]"
    by code_simp
  have 3: "length (answers (butlast (trace (snd (stage_features upstream_features_down ''jazz''))))) = 2"
    by code_simp
  have 4: "\<not> (200 \<le> status (error_resp 503 []) \<and> status (error_resp 503 []) < 300)"
    by (simp add: error_resp_def)
  note run = C7_features_failure_aborts [OF 1 2 3 4]
  from run [THEN conjunct1]
  have "fst (getTop100AudioData upstream_features_down (JStr ''jazz'')) =
     Rejects (AxiosError (Some (error_resp 503 []))
       (JStr ''https://api.spotify.com/v1/audio-features/?ids=a1,b2,c3''))"
    by simp
  with run [THEN conjunct2] show ?thesis by blast
qed

text \<open>
  Claim C8: when the sorting of the first pass finds no failure, the operation resolves with
  the records as that pass left them, and the trace is that of the first pass: three
  requests and one analysis request per feature object, no call of \<^verbatim>\<open>sleep\<close>, no retry.
\<close>

theorem C8_no_failure_no_retry:
  assumes "stage_analyses w genre = (Fulfilled songs, st)"
      and "for_each sort_answer songs (songData st, []) = (None, (sd, []))"
  shows "getTop100AudioData w (JStr genre) = (Resolves (own sd), trace st)
         \<and> list_all is_request (trace st)
         \<and> length (trace st) = 3 + length songs"
proof -
  from assms(2) have "on_analyses w songs st = (Fulfilled (Resolves (own sd)), st\<lparr>songData := sd\<rparr>)"
    by (simp add: on_analyses_def)
  with assms(1) have run: "getTop100AudioData w (JStr genre) = (Resolves (own sd), trace st)"
    by (simp add: getTop100AudioData_def then_do_def finish_def)
  from assms(1) obtain r1 href r2 furl r3 feats where
    tr: "trace st =
       [Request (JStr (playlist_url genre)) (Responds r1), Request href (Responds r2),
        Request (JStr (butlast furl)) (Responds r3)]
       @ map2 Request (map analysis_url_of feats) (issue w 3 (map analysis_url_of feats))"
    and all: "promise_all (map2 (\<lambda>url out. catch_analysis (settle out url)) (map analysis_url_of feats)
        (issue w 3 (map analysis_url_of feats))) = Fulfilled songs"
    by (rule stage_analyses_Fulfilled)
  from all have "length songs = length feats"
    by (auto dest!: analyses_settle [rotated])
  with tr run show ?thesis by simp
qed

text \<open>The run on \<open>upstream_ok\<close>: four requests, all answered 200.\<close>

theorem C8_no_failure_witness:
  "getTop100AudioData upstream_ok (JStr ''jazz'') =
     (Resolves ok_result, trace (snd (stage_analyses upstream_ok ''jazz'')))
   \<and> list_all is_request (trace (snd (stage_analyses upstream_ok ''jazz'')))
   \<and> length (trace (snd (stage_analyses upstream_ok ''jazz''))) = 4"
proof -
  have 1: "stage_analyses upstream_ok ''jazz'' =
      (Fulfilled [Resp (analysis_resp ''a1'')], snd (stage_analyses upstream_ok ''jazz''))"
    by code_simp
  have 2: "for_each sort_answer [Resp (analysis_resp ''a1'')]
      (songData (snd (stage_analyses upstream_ok ''jazz'')), []) =
      (None, (records_only ok_result, []))"
    by code_simp
  from C8_no_failure_no_retry [OF 1 2] show ?thesis by (simp add: records_only_def)
qed

text \<open>
  Claim C9, as the code has it. The listing stage creates one record per item of the
  listing response, a later item replacing an earlier one with the same id: there are at
  most as many records as items, under distinct keys, and each is what \<open>listed_as\<close> says
  of some item: its key is the string of the item's track id, its name and popularity
  are the item's, whatever they are. The code neither stops at 100 items nor looks for
  \<^verbatim>\<open>null\<close>.
\<close>

theorem C9_listing_records:
  assumes "stage_tracklist w genre = (Fulfilled listing, st0)"
      and "and_then (get_prop (data listing) ''items'') as_array = Inr items"
      and "stage_features w genre = (p, st)"
  shows "length (own (songData st)) \<le> length items
         \<and> distinct (map fst (own (songData st)))
         \<and> (\<forall>(k, rec) \<in> set (own (songData st)). \<exists>item \<in> set items. listed_as item k rec)"
proof -
  from assms(1) have sd0: "songData st0 = empty_store"
    by (cases rule: stage_tracklist_cases) simp_all
  from assms(1,3) have on: "on_tracklist w listing st0 = (p, st)"
    by (simp add: stage_features_def then_do_def)
  obtain res furl sd where
    loop: "for_each add_track items (feature_url_prefix, empty_store) = (res, (furl, sd))"
    by (cases "for_each add_track items (feature_url_prefix, empty_store)") auto
  show ?thesis
  proof (cases res)
    case (Some e)
    with on assms(2) loop sd0 have "songData st = empty_store"
      by (auto simp: on_tracklist_def)
    then show ?thesis by (simp add: empty_store_def)
  next
    case None
    with on assms(2) loop sd0 have "songData st = sd"
      by (auto simp: on_tracklist_def Axios_eq)
    with listing_length [OF loop] listing_records [OF loop] show ?thesis
      by (auto simp: empty_store_def)
  qed
qed

theorem C9_listing_records_witness:
  "length (own (songData (snd (stage_features upstream_retry ''jazz'')))) \<le> length three_tracks
   \<and> distinct (map fst (own (songData (snd (stage_features upstream_retry ''jazz'')))))"
proof -
  have 1: "stage_tracklist upstream_retry ''jazz'' =
      (Fulfilled (ok_resp (listing_doc three_tracks) ''/v1/playlists/p1/tracks''),
       snd (stage_tracklist upstream_retry ''jazz''))"
    by code_simp
  have 2: "and_then (get_prop (data (ok_resp (listing_doc three_tracks) ''/v1/playlists/p1/tracks'')) ''items'')
      as_array = Inr three_tracks"
    by (simp add: ok_resp_def listing_doc_def)
  have 3: "stage_features upstream_retry ''jazz'' =
      (fst (stage_features upstream_retry ''jazz''), snd (stage_features upstream_retry ''jazz''))"
    by simp
  from C9_listing_records [OF 1 2 3] show ?thesis by blast
qed

text \<open>
  On a listing of 101 items there are 101 records, and the record of the item without id,
  name and popularity has the key \<^verbatim>\<open>null\<close> and the name and popularity \<^verbatim>\<open>null\<close>.
\<close>

theorem C9_long_listing_counterexample:
  "length (own (songData (snd (stage_features upstream_long ''jazz'')))) = 101
   \<and> hd (own (songData (snd (stage_features upstream_long ''jazz'')))) =
       (''null'', \<lparr>name = JNull, popularity = JNull, features = None, analysis = None\<rparr>)"
proof -
  let ?null = "(''null'', \<lparr>name = JNull, popularity = JNull, features = None, analysis = None\<rparr>)"
  let ?rest = "map (\<lambda>k. (k, \<lparr>name = JStr ''T'', popularity = JNumber (Num 1), features = None, analysis = None\<rparr>)) long_ids"
  let ?s1 = "put empty_store ''null'' \<lparr>name = JNull, popularity = JNull, features = None, analysis = None\<rparr>"
  have first: "add_track (track_item JNull JNull JNull) (feature_url_prefix, empty_store) =
      Inr (feature_url_prefix @ ''null'' @ '','', ?s1)"
    by (simp add: add_track_def track_item_def key_of_def)
  have own1: "own ?s1 = [?null]" by (simp add: own_put empty_store_def)
  from listing_of_fresh_tracks [of long_ids ?s1 "JStr ''T''" "JNumber (Num 1)"
      "feature_url_prefix @ ''null'' @ '',''"] long_ids_facts
  obtain furl sd where "for_each add_track (map (\<lambda>k. track_item (JStr k) (JStr ''T'') (JNumber (Num 1))) long_ids)
      (feature_url_prefix @ ''null'' @ '','', ?s1) = (None, (furl, sd))"
    and sd: "own sd = ?null # ?rest"
    by (auto simp: own1)
  with first have loop: "for_each add_track long_listing (feature_url_prefix, empty_store) = (None, (furl, sd))"
    by (simp add: long_listing_def)
  define st2 where "st2 = snd (stage_tracklist upstream_long ''jazz'')"
  have "fst (stage_tracklist upstream_long ''jazz'') =
      Fulfilled (ok_resp (listing_doc long_listing) ''/v1/playlists/p1/tracks'')"
    by (simp add: stage_tracklist_def stage_playlists_eq then_do_def on_playlists_def Axios_eq
        upstream_long_def upstream_retry_def ok_response_def ok_resp_def settle_def
        tracklist_href_def one_playlist_def playlists_doc_def)
  then have tl: "stage_tracklist upstream_long ''jazz'' =
      (Fulfilled (ok_resp (listing_doc long_listing) ''/v1/playlists/p1/tracks''), st2)"
    by (simp add: st2_def prod_eq_iff)
  then have empty: "songData st2 = empty_store"
    by (cases rule: stage_tracklist_cases) simp_all
  have eq: "stage_features upstream_long ''jazz'' =
      on_tracklist upstream_long (ok_resp (listing_doc long_listing) ''/v1/playlists/p1/tracks'') st2"
    by (simp add: stage_features_def tl then_do_def)
  have items: "and_then (get_prop (data (ok_resp (listing_doc long_listing) ''/v1/playlists/p1/tracks'')) ''items'')
      as_array = Inr long_listing"
    by (simp add: ok_resp_def listing_doc_def)
  have "songData (snd (on_tracklist upstream_long
      (ok_resp (listing_doc long_listing) ''/v1/playlists/p1/tracks'') st2)) = sd"
    apply (simp only: on_tracklist_def items sum.case empty)
    apply (subst loop)
    apply (simp add: Axios_eq)
    done
  then have "own (songData (snd (stage_features upstream_long ''jazz''))) = ?null # ?rest"
    by (simp only: eq sd)
  then show ?thesis by (simp only: list.sel length_Cons length_map long_ids_facts) simp
qed




end
